theory Spec2Isabelle
  imports Complex_Main "HOL-Library.Sublist"
begin

section \<open>Python runtime errors and list primitives\<close>

text \<open>
  The exceptions that the modelled code of \<^verbatim>\<open>run_batches_simple.py\<close> and
  \<^verbatim>\<open>merge_batch_results.py\<close> can raise and that are not caught by one of its own
  handlers. \<^verbatim>\<open>UnboundLocalError\<close> is what reading a local name raises before the name is
  bound.
\<close>

datatype py_error =
  ValueError | IndexError | TypeError | FileNotFoundError | OSError | UnboundLocalError

text \<open>
  \<^verbatim>\<open>range(start, stop, step)\<close> for a positive step, as the list of its values.
\<close>

function range_up :: "nat \<Rightarrow> nat \<Rightarrow> nat \<Rightarrow> nat list" where
  "range_up start stop step =
     (if 0 < step \<and> start < stop then start # range_up (start + step) stop step else [])"
  by pat_completeness auto
termination
  by (relation "measure (\<lambda>(start, stop, step). stop - start)") auto

declare range_up.simps [simp del]

text \<open>
  \<^verbatim>\<open>range(0, n, step)\<close> for any integer step: a zero step raises \<^verbatim>\<open>ValueError\<close>, a
  negative step counts down from 0 and therefore yields nothing for \<open>n \<ge> 0\<close>.
\<close>

definition py_range0 :: "nat \<Rightarrow> int \<Rightarrow> py_error + nat list" where
  "py_range0 n step =
     (if step = 0 then Inl ValueError
      else if step < 0 then Inr []
      else Inr (range_up 0 n (nat step)))"

text \<open>The slice \<^verbatim>\<open>xs[i:j]\<close> for indices \<open>0 \<le> i \<le> j\<close>.\<close>

definition py_slice :: "'a list \<Rightarrow> nat \<Rightarrow> nat \<Rightarrow> 'a list" where
  "py_slice xs i j = take (j - i) (drop i xs)"

section \<open>Batch splitter\<close>

text \<open>
  \<^verbatim>\<open>split_into_batches(tests, batch_size)\<close>: one slice \<^verbatim>\<open>tests[i:i+batch_size]\<close> per
  value of \<^verbatim>\<open>range(0, len(tests), batch_size)\<close>, appended in that order.
\<close>

definition split_into_batches :: "'a list \<Rightarrow> int \<Rightarrow> py_error + 'a list list" where
  "split_into_batches tests batch_size =
     (case py_range0 (length tests) batch_size of
        Inl e \<Rightarrow> Inl e
      | Inr idxs \<Rightarrow> Inr (map (\<lambda>i. py_slice tests i (i + nat batch_size)) idxs))"

section \<open>Result artifacts as parsed JSON\<close>

text \<open>
  What \<^verbatim>\<open>json.load\<close> returns: \<^verbatim>\<open>None\<close>, a bool, an int, a str, a list or a dict.
  A dict is the list of its items in insertion order, keys distinct. Numbers with a
  fraction or an exponent (Python floats) are not part of the model. A character is a
  code point below 256.
\<close>

datatype json =
    JNull
  | JBool bool
  | JInt int
  | JStr string
  | JArr "json list"
  | JObj "(string \<times> json) list"

text \<open>
  \<^verbatim>\<open>d.get(key, default)\<close>. Only a dict has the method; on any other value Python raises
  \<^verbatim>\<open>AttributeError\<close>, here \<open>None\<close>.
\<close>

fun py_get :: "json \<Rightarrow> string \<Rightarrow> json \<Rightarrow> json option" where
  "py_get (JObj kvs) key dflt = Some (case map_of kvs key of Some v \<Rightarrow> v | None \<Rightarrow> dflt)"
| "py_get _ key dflt = None"

text \<open>
  The values a \<^verbatim>\<open>for\<close> loop draws from a JSON value: the elements of a list, the keys of
  a dict, the characters of a str. Any other value raises \<^verbatim>\<open>TypeError\<close>, here \<open>None\<close>.
\<close>

fun py_iter :: "json \<Rightarrow> json list option" where
  "py_iter (JArr xs) = Some xs"
| "py_iter (JObj kvs) = Some (map (\<lambda>kv. JStr (fst kv)) kvs)"
| "py_iter (JStr s) = Some (map (\<lambda>c. JStr [c]) s)"
| "py_iter _ = None"

subsection \<open>Text of a value: \<^verbatim>\<open>str\<close> and \<^verbatim>\<open>repr\<close>\<close>

definition digit_char :: "nat \<Rightarrow> char" where
  "digit_char d = char_of (48 + d)"

function str_nat :: "nat \<Rightarrow> string" where
  "str_nat n = (if n < 10 then [digit_char n] else str_nat (n div 10) @ [digit_char (n mod 10)])"
  by pat_completeness auto
termination
  by (relation "measure (\<lambda>n. n)") auto

declare str_nat.simps [simp del]

definition str_int :: "int \<Rightarrow> string" where
  "str_int i = (if i < 0 then CHR ''-'' # str_nat (nat (- i)) else str_nat (nat i))"

definition hex_char :: "nat \<Rightarrow> char" where
  "hex_char d = (if d < 10 then char_of (48 + d) else char_of (87 + d))"

text \<open>
  \<^verbatim>\<open>repr\<close> of a str: double quotes when the text holds a single quote and no double
  quote, single quotes otherwise; the quote and the backslash are escaped, tab, newline
  and carriage return are written \<^verbatim>\<open>\t\<close>, \<^verbatim>\<open>\n\<close>, \<^verbatim>\<open>\r\<close>, and every other code point that
  is not printable as \<^verbatim>\<open>\xNN\<close>.
\<close>

definition repr_char :: "char \<Rightarrow> char \<Rightarrow> string" where
  "repr_char q c =
     (let n = (of_char c :: nat) in
      if c = q \<or> c = CHR 0x5C then [CHR 0x5C, c]
      else if c = CHR 0x09 then [CHR 0x5C, CHR ''t'']
      else if c = CHR 0x0A then [CHR 0x5C, CHR ''n'']
      else if c = CHR 0x0D then [CHR 0x5C, CHR ''r'']
      else if n < 32 \<or> n = 127 \<or> (128 \<le> n \<and> n \<le> 160) \<or> n = 173
        then [CHR 0x5C, CHR ''x'', hex_char (n div 16), hex_char (n mod 16)]
      else [c])"

definition repr_str :: "string \<Rightarrow> string" where
  "repr_str s =
     (let q = (if CHR 0x27 \<in> set s \<and> CHR 0x22 \<notin> set s then CHR 0x22 else CHR 0x27)
      in q # concat (map (repr_char q) s) @ [q])"

text \<open>\<^verbatim>\<open>', '.join(parts)\<close>.\<close>

fun join_comma :: "string list \<Rightarrow> string" where
  "join_comma [] = []"
| "join_comma [p] = p"
| "join_comma (p # ps) = p @ '', '' @ join_comma ps"

fun py_repr :: "json \<Rightarrow> string" where
  "py_repr JNull = ''None''"
| "py_repr (JBool b) = (if b then ''True'' else ''False'')"
| "py_repr (JInt i) = str_int i"
| "py_repr (JStr s) = repr_str s"
| "py_repr (JArr xs) = ''['' @ join_comma (map py_repr xs) @ '']''"
| "py_repr (JObj kvs) =
     ''{'' @ join_comma (map (\<lambda>kv. repr_str (fst kv) @ '': '' @ py_repr (snd kv)) kvs) @ ''}''"

text \<open>\<^verbatim>\<open>str(v)\<close>: the text itself for a str, the \<^verbatim>\<open>repr\<close> for everything else.\<close>

fun py_str :: "json \<Rightarrow> string" where
  "py_str (JStr s) = s"
| "py_str v = py_repr v"

text \<open>
  \<^verbatim>\<open>s.lower()\<close> on code points below 256: the letters A to Z and the Latin-1 capitals
  (192 to 222 without the multiplication sign 215) move up by 32, everything else stays.
\<close>

definition lower_char :: "char \<Rightarrow> char" where
  "lower_char c =
     (let n = (of_char c :: nat) in
      if (65 \<le> n \<and> n \<le> 90) \<or> (192 \<le> n \<and> n \<le> 222 \<and> n \<noteq> 215)
      then char_of (n + 32) else c)"

definition py_lower :: "string \<Rightarrow> string" where
  "py_lower s = map lower_char s"

text \<open>\<^verbatim>\<open>needle in haystack\<close> on strings: the needle occurs as a contiguous run.\<close>

definition py_in :: "string \<Rightarrow> string \<Rightarrow> bool" where
  "py_in needle haystack = sublist needle haystack"

section \<open>Result classifier\<close>

text \<open>
  The two tests that \<^verbatim>\<open>check_api_errors\<close> applies to the error text of one record, in
  the order of its \<^verbatim>\<open>if\<close>/\<^verbatim>\<open>elif\<close>.
\<close>

definition is_rate_limit :: "string \<Rightarrow> bool" where
  "is_rate_limit error \<longleftrightarrow>
     py_in ''429'' error \<or> py_in ''Rate limit'' (py_lower error)
     \<or> py_in ''Too Many Requests'' error"

definition is_service_unavailable :: "string \<Rightarrow> bool" where
  "is_service_unavailable error \<longleftrightarrow>
     py_in ''503'' error \<or> py_in ''Service Unavailable'' error
     \<or> py_in ''overloaded'' (py_lower error)"

text \<open>
  The loop over \<^verbatim>\<open>results\<close> with its two counters. \<open>None\<close> is an exception raised
  inside the loop (\<^verbatim>\<open>.get\<close> on a value that is not a dict).
\<close>

fun count_api_errors :: "json list \<Rightarrow> nat \<Rightarrow> nat \<Rightarrow> (nat \<times> nat) option" where
  "count_api_errors [] rate_limit_count service_unavailable_count =
     Some (rate_limit_count, service_unavailable_count)"
| "count_api_errors (result # rest) rate_limit_count service_unavailable_count =
     (case py_get result ''response'' (JObj []) of
        None \<Rightarrow> None
      | Some response \<Rightarrow>
          (case py_get response ''error'' (JStr []) of
             None \<Rightarrow> None
           | Some e \<Rightarrow>
               (let error = py_str e in
                if is_rate_limit error
                  then count_api_errors rest (rate_limit_count + 1) service_unavailable_count
                else if is_service_unavailable error
                  then count_api_errors rest rate_limit_count (service_unavailable_count + 1)
                else count_api_errors rest rate_limit_count service_unavailable_count)))"

text \<open>
  What the classifier finds at the path of the result artifact: no file, a file that
  \<^verbatim>\<open>open\<close> cannot read, a file whose content \<^verbatim>\<open>json.load\<close> rejects, or parsed JSON.
\<close>

datatype artifact_file = Missing | Unreadable | Malformed | Parsed json

datatype api_error = Rate_limit_429 | Overloaded_503

text \<open>
  The body of the \<^verbatim>\<open>try\<close> block of \<^verbatim>\<open>check_api_errors\<close>; \<open>None\<close> is an exception that
  reaches the handler.
\<close>

fun check_api_errors_body :: "artifact_file \<Rightarrow> (api_error option \<times> nat \<times> nat) option" where
  "check_api_errors_body Missing = Some (None, 0, 0)"
| "check_api_errors_body Unreadable = None"
| "check_api_errors_body Malformed = None"
| "check_api_errors_body (Parsed data) =
     (case py_get data ''results'' (JObj []) of
        None \<Rightarrow> None
      | Some inner \<Rightarrow>
          (case py_get inner ''results'' (JArr []) of
             None \<Rightarrow> None
           | Some results \<Rightarrow>
               (case py_iter results of
                  None \<Rightarrow> None
                | Some rs \<Rightarrow>
                    (case count_api_errors rs 0 0 of
                       None \<Rightarrow> None
                     | Some (rate_limit_count, service_unavailable_count) \<Rightarrow>
                         if rate_limit_count > 0
                           then Some (Some Rate_limit_429, rate_limit_count, 0)
                         else if service_unavailable_count > 0
                           then Some (Some Overloaded_503, 0, service_unavailable_count)
                         else Some (None, 0, 0)))))"

text \<open>
  \<^verbatim>\<open>check_api_errors(output_json)\<close>: the handler \<^verbatim>\<open>except Exception\<close> turns every
  exception of the body into \<^verbatim>\<open>(None, 0, 0)\<close>. The handler's \<^verbatim>\<open>print\<close> is taken to
  succeed.
\<close>

definition check_api_errors :: "artifact_file \<Rightarrow> api_error option \<times> nat \<times> nat" where
  "check_api_errors output_json =
     (case check_api_errors_body output_json of
        None \<Rightarrow> (None, 0, 0)
      | Some r \<Rightarrow> r)"

section \<open>Process supervisor\<close>

datatype status = Success | Failed | Timeout | Rate_limited | Service_overloaded | Error

text \<open>
  The dict that \<^verbatim>\<open>run_batch\<close> returns; a key that a branch does not set is \<open>None\<close>.
\<close>

record batch_outcome =
  batch_num :: int
  status :: status
  elapsed :: "real option"
  error_count :: "nat option"
  error_type :: "string option"
  error :: "string option"

text \<open>
  What happens to the launched evaluation command, as \<^verbatim>\<open>run_batch\<close> observes it: the
  wait runs into the timeout (after the measured time), or the command exits with a
  return code (after the measured time, leaving the artifact path in some state), or
  starting or waiting raises an exception with a message.
\<close>

datatype tool_run =
    Timed_out real
  | Exited int real artifact_file
  | Raised string

fun run_batch :: "int \<Rightarrow> tool_run \<Rightarrow> batch_outcome" where
  "run_batch bn (Timed_out t) =
     \<lparr>batch_num = bn, status = Timeout, elapsed = Some t,
      error_count = None, error_type = None, error = None\<rparr>"
| "run_batch bn (Exited return_code t output_json) =
     (case check_api_errors output_json of
        (error_kind, rate_limit_count, service_503_count) \<Rightarrow>
          if error_kind = Some Rate_limit_429 then
            \<lparr>batch_num = bn, status = Rate_limited, elapsed = Some t,
             error_count = Some rate_limit_count, error_type = Some ''429'', error = None\<rparr>
          else if error_kind = Some Overloaded_503 then
            \<lparr>batch_num = bn, status = Service_overloaded, elapsed = Some t,
             error_count = Some service_503_count, error_type = Some ''503'', error = None\<rparr>
          else if return_code = 0 then
            \<lparr>batch_num = bn, status = Success, elapsed = Some t,
             error_count = None, error_type = None, error = None\<rparr>
          else
            \<lparr>batch_num = bn, status = Failed, elapsed = Some t,
             error_count = None, error_type = None, error = None\<rparr>)"
| "run_batch bn (Raised msg) =
     \<lparr>batch_num = bn, status = Error, elapsed = None,
      error_count = None, error_type = None, error = Some msg\<rparr>"

text \<open>
  The artifact path is \<^verbatim>\<open>batch_NN_results.json\<close> in the output directory: it depends on
  the batch number alone, and neither \<^verbatim>\<open>run_batch\<close> nor any other code of the runner
  removes the file. What the classifier finds there after the command has exited is
  therefore what this run of the command wrote or, when it wrote nothing, what was there
  before: nothing, or the artifact of an earlier run for the same batch number (the first
  attempt before a fallback retry, a run that is now resumed).
\<close>

definition artifact_after :: "artifact_file \<Rightarrow> artifact_file option \<Rightarrow> artifact_file" where
  "artifact_after before written = (case written of None \<Rightarrow> before | Some f \<Rightarrow> f)"

section \<open>Artifacts used in the scenarios\<close>

text \<open>
  A per-test record whose response carries the error text \<open>e\<close>, and an artifact whose
  record sequence is \<open>rs\<close>, in the layout that \<^verbatim>\<open>check_api_errors\<close> reads:
  \<^verbatim>\<open>{"results": {"results": [{"response": {"error": e}}, ...]}}\<close>.
\<close>

definition error_record :: "string \<Rightarrow> json" where
  "error_record e = JObj [(''response'', JObj [(''error'', JStr e)])]"

definition artifact_of :: "json list \<Rightarrow> artifact_file" where
  "artifact_of rs = Parsed (JObj [(''results'', JObj [(''results'', JArr rs)])])"

section \<open>Run state and observable events\<close>

text \<open>
  The module constants of \<^verbatim>\<open>run_batches_simple.py\<close>: the roster of fallback models
  (identifier and description, fastest first) and the circuit-breaker threshold.
\<close>

definition FALLBACK_MODELS :: "(string \<times> string) list" where
  "FALLBACK_MODELS =
     [(''google:gemini-2.5-flash-lite'', ''Gemini 2.5 Flash Lite (Fastest, lower load)''),
      (''google:gemini-3-pro-preview'', ''Gemini 3 Pro Preview (More heavy capacity)''),
      (''google:gemini-2.5-pro'', ''Gemini 2.5 Pro (More capacity)'')]"

definition MAX_CONSECUTIVE_FAILURES :: int where
  "MAX_CONSECUTIVE_FAILURES = 2"

text \<open>
  What a run does to the outside world, in the order in which it does it: a call of
  \<^verbatim>\<open>run_batch\<close> for a batch number with the model written into the batch's config, the
  cooldown \<^verbatim>\<open>time.sleep(args.delay)\<close>, the partial summary written by
  \<^verbatim>\<open>_save_partial_and_exit\<close> and the resume command it prints (\<^verbatim>\<open>--start batch_num\<close>), the
  full summary written at the end of \<^verbatim>\<open>main\<close>, and the merge step after it.
\<close>

datatype event =
    Run_batch int "string option"
  | Sleep int
  | Save_partial "batch_outcome list"
  | Resume_hint int
  | Save_summary "batch_outcome list"
  | Merge_attempt

text \<open>
  The local variables of \<^verbatim>\<open>main\<close> that live across batches, the events so far, and
  whether the directory \<^verbatim>\<open>reports/batches\<close> exists.
\<close>

record run_state =
  results :: "batch_outcome list"
  consecutive_api_errors :: int
  current_model :: "string option"
  trace :: "event list"
  reports_dir :: bool

text \<open>
  The evaluation tool as the run meets it: what the command does for a batch number
  under a model. Within one run every pair of batch number and model is launched at
  most once, so a function of the two loses nothing.
\<close>

type_synonym tool = "int \<Rightarrow> string option \<Rightarrow> tool_run"

section \<open>Fallback model selector\<close>

text \<open>
  The loop of \<^verbatim>\<open>_try_fallback_models\<close> over a roster: the current model is skipped, every
  other candidate gets a config of its own and a call of \<^verbatim>\<open>run_batch\<close> for the same batch;
  the first candidate whose outcome is \<^verbatim>\<open>success\<close> or \<^verbatim>\<open>failed\<close> is written over the last
  entry of \<^verbatim>\<open>results\<close> (\<^verbatim>\<open>results[-1] = retry_result\<close>, an \<^verbatim>\<open>IndexError\<close> on an empty list)
  and its identifier is returned; \<open>None\<close> is returned when the roster is used up.
\<close>

fun try_models ::
  "tool \<Rightarrow> int \<Rightarrow> string option \<Rightarrow> (string \<times> string) list \<Rightarrow> run_state
     \<Rightarrow> py_error + (string option \<times> run_state)" where
  "try_models tool bn cur [] st = Inr (None, st)"
| "try_models tool bn cur ((fallback_model_id, fallback_desc) # rest) st =
     (if Some fallback_model_id = cur then try_models tool bn cur rest st
      else
        (let retry_result = run_batch bn (tool bn (Some fallback_model_id));
             st1 = st\<lparr>trace := trace st @ [Run_batch bn (Some fallback_model_id)],
                      reports_dir := True\<rparr>
         in if status retry_result = Success \<or> status retry_result = Failed then
              (if results st1 = [] then Inl IndexError
               else Inr (Some fallback_model_id,
                         st1\<lparr>results := butlast (results st1) @ [retry_result]\<rparr>))
            else try_models tool bn cur rest st1))"

definition try_fallback_models ::
  "tool \<Rightarrow> int \<Rightarrow> run_state \<Rightarrow> string option \<Rightarrow> py_error + (string option \<times> run_state)" where
  "try_fallback_models tool bn st cur = try_models tool bn cur FALLBACK_MODELS st"

section \<open>Escalation controller: the batch loop of \<^verbatim>\<open>main\<close>\<close>

text \<open>The command-line options; \<^verbatim>\<open>--end\<close> is the field \<open>end_arg\<close>.\<close>

record args =
  batch_size :: int
  delay :: int
  timeout :: int
  start :: "int option"
  end_arg :: "int option"
  no_fallback :: bool
  model :: "string option"

text \<open>
  How a run ends: \<^verbatim>\<open>sys.exit(code)\<close> or the return from \<^verbatim>\<open>main\<close> (exit code 0), or an
  exception that no handler catches.
\<close>

datatype run_end = Exit int | Uncaught py_error

datatype step = Continue run_state | Halt run_end run_state

fun state_of :: "step \<Rightarrow> run_state" where
  "state_of (Continue st) = st"
| "state_of (Halt e st) = st"

text \<open>
  \<^verbatim>\<open>_save_partial_and_exit\<close>: creates the directory, writes \<^verbatim>\<open>results\<close> to the partial
  summary, prints the resume command and exits with code 1.
\<close>

definition save_partial_and_exit :: "int \<Rightarrow> run_state \<Rightarrow> step" where
  "save_partial_and_exit bn st =
     Halt (Exit 1)
       (st\<lparr>reports_dir := True,
           trace := trace st @ [Save_partial (results st), Resume_hint bn]\<rparr>)"

text \<open>The circuit breaker: \<^verbatim>\<open>if consecutive_api_errors >= MAX_CONSECUTIVE_FAILURES\<close>.\<close>

definition circuit_breaker :: "int \<Rightarrow> run_state \<Rightarrow> step" where
  "circuit_breaker bn st =
     (if consecutive_api_errors st \<ge> MAX_CONSECUTIVE_FAILURES
      then save_partial_and_exit bn st else Continue st)"

text \<open>Truth value of \<^verbatim>\<open>retry_success\<close>: neither \<^verbatim>\<open>None\<close> nor the empty string.\<close>

fun truthy :: "string option \<Rightarrow> bool" where
  "truthy None = False"
| "truthy (Some s) = (s \<noteq> [])"

text \<open>
  The branch for \<^verbatim>\<open>timeout\<close>, which the source repeats for \<^verbatim>\<open>service_overloaded\<close>: the
  counter goes up by one; without fallback the circuit breaker decides; with fallback
  the roster is tried, an adopted model resets the counter and becomes the current
  model, and otherwise the circuit breaker decides.
\<close>

definition on_api_failure :: "args \<Rightarrow> tool \<Rightarrow> int \<Rightarrow> run_state \<Rightarrow> step" where
  "on_api_failure a tool bn st =
     (let st1 = st\<lparr>consecutive_api_errors := consecutive_api_errors st + 1\<rparr> in
      if no_fallback a then circuit_breaker bn st1
      else
        (case try_fallback_models tool bn st1 (current_model st1) of
           Inl e \<Rightarrow> Halt (Uncaught e) st1
         | Inr (retry_success, st2) \<Rightarrow>
             if truthy retry_success
             then Continue (st2\<lparr>consecutive_api_errors := 0, current_model := retry_success\<rparr>)
             else circuit_breaker bn st2))"

text \<open>
  The chain \<^verbatim>\<open>if result["status"] == ... elif ...\<close> of the loop body, on the state in which
  \<^verbatim>\<open>result\<close> has been appended to \<^verbatim>\<open>results\<close>.
\<close>

definition handle_outcome :: "args \<Rightarrow> tool \<Rightarrow> int \<Rightarrow> batch_outcome \<Rightarrow> run_state \<Rightarrow> step" where
  "handle_outcome a tool bn result st =
     (case status result of
        Success \<Rightarrow> Continue (st\<lparr>consecutive_api_errors := 0\<rparr>)
      | Timeout \<Rightarrow> on_api_failure a tool bn st
      | Rate_limited \<Rightarrow> save_partial_and_exit bn st
      | Service_overloaded \<Rightarrow> on_api_failure a tool bn st
      | Failed \<Rightarrow> Continue st
      | Error \<Rightarrow>
          circuit_breaker bn (st\<lparr>consecutive_api_errors := consecutive_api_errors st + 1\<rparr>))"

text \<open>
  The cooldown at the end of the loop body:
  \<^verbatim>\<open>if i < end_idx - 1 and result["status"] in ["success", "failed"]\<close>, where \<^verbatim>\<open>result\<close> is
  the outcome of the first attempt. \<^verbatim>\<open>time.sleep\<close> raises \<^verbatim>\<open>ValueError\<close> on a negative
  argument.
\<close>

definition cooldown :: "args \<Rightarrow> int \<Rightarrow> int \<Rightarrow> batch_outcome \<Rightarrow> run_state \<Rightarrow> step" where
  "cooldown a end_idx i result st =
     (if i < end_idx - 1 \<and> (status result = Success \<or> status result = Failed) then
        (if delay a < 0 then Halt (Uncaught ValueError) st
         else Continue (st\<lparr>trace := trace st @ [Sleep (delay a)]\<rparr>))
      else Continue st)"

text \<open>\<^verbatim>\<open>xs[i]\<close>: an index below zero counts from the end, one outside both ranges raises.\<close>

definition py_index :: "'a list \<Rightarrow> int \<Rightarrow> py_error + 'a" where
  "py_index xs i =
     (if 0 \<le> i \<and> i < int (length xs) then Inr (xs ! nat i)
      else if i < 0 \<and> - int (length xs) \<le> i then Inr (xs ! nat (int (length xs) + i))
      else Inl IndexError)"

text \<open>
  One pass through the loop body for the index \<open>i\<close>: pick the batch, write its files
  (which creates the directories), run it, append the outcome, act on it, cool down.
\<close>

definition process_batch ::
  "args \<Rightarrow> tool \<Rightarrow> 'a list list \<Rightarrow> int \<Rightarrow> int \<Rightarrow> run_state \<Rightarrow> step" where
  "process_batch a tool batches end_idx i st =
     (let bn = i + 1 in
      case py_index batches i of
        Inl e \<Rightarrow> Halt (Uncaught e) st
      | Inr batch \<Rightarrow>
          (let result = run_batch bn (tool bn (current_model st));
               st1 = st\<lparr>reports_dir := True,
                        trace := trace st @ [Run_batch bn (current_model st)],
                        results := results st @ [result]\<rparr>
           in case handle_outcome a tool bn result st1 of
                Halt e st2 \<Rightarrow> Halt e st2
              | Continue st2 \<Rightarrow> cooldown a end_idx i result st2))"

text \<open>The loop \<^verbatim>\<open>for i in range(start_idx, end_idx)\<close> over the list of its indices.\<close>

fun run_loop ::
  "args \<Rightarrow> tool \<Rightarrow> 'a list list \<Rightarrow> int \<Rightarrow> int list \<Rightarrow> run_state \<Rightarrow> step" where
  "run_loop a tool batches end_idx [] st = Continue st"
| "run_loop a tool batches end_idx (i # later) st =
     (case process_batch a tool batches end_idx i st of
        Halt e st1 \<Rightarrow> Halt e st1
      | Continue st1 \<Rightarrow> run_loop a tool batches end_idx later st1)"

text \<open>
  The end of \<^verbatim>\<open>main\<close>: the full summary is written into \<^verbatim>\<open>reports/batches\<close> (an
  uncaught \<^verbatim>\<open>FileNotFoundError\<close> when the directory does not exist), and the merge step
  follows when at least one outcome is a success; its own exceptions are caught.
\<close>

definition finish :: "run_state \<Rightarrow> run_end \<times> run_state" where
  "finish st =
     (if \<not> reports_dir st then (Uncaught FileNotFoundError, st)
      else
        (let success_count = length (filter (\<lambda>r. status r = Success) (results st));
             st1 = st\<lparr>trace := trace st @ [Save_summary (results st)]\<rparr>
         in if success_count > 0
            then (Exit 0, st1\<lparr>trace := trace st1 @ [Merge_attempt]\<rparr>)
            else (Exit 0, st1)))"

text \<open>
  Where the tests come from: the file named by \<^verbatim>\<open>--tests\<close>, or the \<^verbatim>\<open>tests\<close> entry of
  the base config, \<open>None\<close> when the config cannot be loaded.
\<close>

datatype 'a tests_input = Tests_file "'a list" | Inline_config "'a list option"

definition initial_state :: "args \<Rightarrow> bool \<Rightarrow> run_state" where
  "initial_state a dir_exists =
     \<lparr>results = [], consecutive_api_errors = 0, current_model = model a,
      trace = [], reports_dir = dir_exists\<rparr>"

text \<open>
  \<^verbatim>\<open>main\<close> after the tests are loaded: split, fix the index range
  (\<^verbatim>\<open>(args.start - 1) if args.start else 0\<close>, \<^verbatim>\<open>args.end if args.end else total_batches\<close>),
  loop, finish.
\<close>

definition run_batches :: "args \<Rightarrow> tool \<Rightarrow> 'a list \<Rightarrow> bool \<Rightarrow> run_end \<times> run_state" where
  "run_batches a tool tests dir_exists =
     (case split_into_batches tests (batch_size a) of
        Inl e \<Rightarrow> (Uncaught e, initial_state a dir_exists)
      | Inr batches \<Rightarrow>
          (let total_batches = int (length batches);
               start_idx = (case start a of
                              None \<Rightarrow> 0
                            | Some s \<Rightarrow> if s \<noteq> 0 then s - 1 else 0);
               end_idx = (case end_arg a of
                            None \<Rightarrow> total_batches
                          | Some e \<Rightarrow> if e \<noteq> 0 then e else total_batches)
           in case run_loop a tool batches end_idx [start_idx..end_idx - 1]
                     (initial_state a dir_exists) of
                Halt e st \<Rightarrow> (e, st)
              | Continue st \<Rightarrow> finish st))"

text \<open>
  \<^verbatim>\<open>main\<close>. With \<^verbatim>\<open>--tests\<close> the loaded list is split as it is. Without it the config
  must load and its test list must not be empty; otherwise \<^verbatim>\<open>main\<close> prints a message and
  calls \<^verbatim>\<open>sys.exit(1)\<close>. The statement \<^verbatim>\<open>import sys\<close> in the merge step at the end of
  \<^verbatim>\<open>main\<close> makes \<^verbatim>\<open>sys\<close> a local name of the whole function body, which is not bound yet
  at these two calls: each of them raises \<^verbatim>\<open>UnboundLocalError\<close> instead of exiting, the
  first one inside the handler \<^verbatim>\<open>except Exception\<close>, so that nothing catches it.
  (\<^verbatim>\<open>_save_partial_and_exit\<close> is a function of its own and reads the module's \<^verbatim>\<open>sys\<close>.)
\<close>

definition main :: "args \<Rightarrow> 'a tests_input \<Rightarrow> tool \<Rightarrow> bool \<Rightarrow> run_end \<times> run_state" where
  "main a inp tool dir_exists =
     (case inp of
        Tests_file tests \<Rightarrow> run_batches a tool tests dir_exists
      | Inline_config None \<Rightarrow> (Uncaught UnboundLocalError, initial_state a dir_exists)
      | Inline_config (Some tests) \<Rightarrow>
          if tests = [] then (Uncaught UnboundLocalError, initial_state a dir_exists)
          else run_batches a tool tests dir_exists)"

section \<open>Result merger\<close>

text \<open>
  The part of a result artifact that \<^verbatim>\<open>merge_results\<close> folds: the sequence of per-test
  records under \<^verbatim>\<open>results.results\<close> and the block \<^verbatim>\<open>results.stats\<close> with its three
  counters and its \<^verbatim>\<open>tokenUsage\<close> dict. The records themselves are not inspected by the
  fold and stay of an arbitrary type. The regrouping of the merged records into
  per-prompt metrics, the export time stamp and the \<^verbatim>\<open>merged-\<close> identifier, which
  \<^verbatim>\<open>merge_results\<close> computes afterwards, touch neither the record sequence nor the stats
  block and are not modelled.
\<close>

record stats =
  successes :: int
  failures :: int
  errors :: int
  tokenUsage :: "string \<rightharpoonup> int"

record 'r artifact =
  art_results :: "'r list"
  art_stats :: stats

text \<open>The keys of \<^verbatim>\<open>tokenUsage\<close> that the merger adds up, in the order of its loop.\<close>

definition token_keys :: "string list" where
  "token_keys = [''prompt'', ''completion'', ''cached'', ''total'']"

text \<open>\<^verbatim>\<open>usage.get(key, 0)\<close>.\<close>

definition usage_get :: "(string \<rightharpoonup> int) \<Rightarrow> string \<Rightarrow> int" where
  "usage_get usage key = (case usage key of None \<Rightarrow> 0 | Some v \<Rightarrow> v)"

text \<open>
  One round of the inner loop:
  \<^verbatim>\<open>if key in batch_usage: merged_usage[key] = merged_usage.get(key, 0) + batch_usage[key]\<close>.
\<close>

definition merge_token ::
  "(string \<rightharpoonup> int) \<Rightarrow> string \<Rightarrow> (string \<rightharpoonup> int) \<Rightarrow> (string \<rightharpoonup> int)" where
  "merge_token batch_usage key merged_usage =
     (case batch_usage key of
        None \<Rightarrow> merged_usage
      | Some v \<Rightarrow> merged_usage(key \<mapsto> usage_get merged_usage key + v))"

definition merge_usage :: "(string \<rightharpoonup> int) \<Rightarrow> (string \<rightharpoonup> int) \<Rightarrow> (string \<rightharpoonup> int)" where
  "merge_usage merged_usage batch_usage = fold (merge_token batch_usage) token_keys merged_usage"

text \<open>
  The loop \<^verbatim>\<open>for batch_file in batch_files[1:]\<close> on the merged artifact and the three
  running totals.
\<close>

fun merge_loop ::
  "'r artifact list \<Rightarrow> 'r artifact \<times> int \<times> int \<times> int \<Rightarrow> 'r artifact \<times> int \<times> int \<times> int" where
  "merge_loop [] acc = acc"
| "merge_loop (batch_data # rest) (merged, total_successes, total_failures, total_errors) =
     merge_loop rest
       (merged\<lparr>art_results := art_results merged @ art_results batch_data,
               art_stats := (art_stats merged)
                 \<lparr>tokenUsage := merge_usage (tokenUsage (art_stats merged))
                                              (tokenUsage (art_stats batch_data))\<rparr>\<rparr>,
        total_successes + successes (art_stats batch_data),
        total_failures + failures (art_stats batch_data),
        total_errors + errors (art_stats batch_data))"

text \<open>
  \<^verbatim>\<open>merge_results(batch_files)\<close> on the loaded artifacts: \<open>None\<close> is the early
  \<^verbatim>\<open>return False\<close> for an empty list, which writes nothing; otherwise the first artifact
  is the base, the others are folded in, and the totals overwrite the base's counters.
\<close>

fun merge_results :: "'r artifact list \<Rightarrow> 'r artifact option" where
  "merge_results [] = None"
| "merge_results (base # rest) =
     (case merge_loop rest
             (base, successes (art_stats base), failures (art_stats base),
              errors (art_stats base)) of
        (merged, total_successes, total_failures, total_errors) \<Rightarrow>
          Some (merged\<lparr>art_stats := (art_stats merged)
                  \<lparr>successes := total_successes,
                   failures := total_failures,
                   errors := total_errors\<rparr>\<rparr>))"

section \<open>Inputs used in the scenarios\<close>

text \<open>The options as \<^verbatim>\<open>argparse\<close> sets them when none is given.\<close>

definition default_args :: args where
  "default_args =
     \<lparr>batch_size = 2, delay = 60, timeout = 120, start = None, end_arg = None,
      no_fallback = False, model = None\<rparr>"


text \<open>
  A tool that cannot be started for batch 1 and, for every other batch, hangs under
  every model but \<^verbatim>\<open>google:gemini-2.5-pro\<close>, under which it exits with code 1.
\<close>

definition tool_pro_only :: tool where
  "tool_pro_only bn m =
     (if bn = 1 then Raised ''boom''
      else if m = Some ''google:gemini-2.5-pro'' then Exited 1 5 Missing
      else Timed_out 120)"

text \<open>A tool whose artifact for every batch holds one record with a 429 error.\<close>

definition tool_rate_limited :: tool where
  "tool_rate_limited bn m = Exited 0 5 (artifact_of [error_record ''HTTP 429'']) "

text \<open>The state in which a first outcome, a timeout of batch 1, has been recorded.\<close>

definition state_after_timeout :: run_state where
  "state_after_timeout =
     \<lparr>results = [run_batch 1 (Timed_out 120)], consecutive_api_errors = 0,
      current_model = None, trace = [Run_batch 1 None], reports_dir = True\<rparr>"

text \<open>
  A tool that hangs under every model but two: under \<^verbatim>\<open>google:gemini-3-pro-preview\<close> it
  exits with code 0 and an artifact that holds a 429 record, under
  \<^verbatim>\<open>google:gemini-2.5-pro\<close> it exits with code 1 and writes no artifact.
\<close>

definition tool_pro_answers :: tool where
  "tool_pro_answers bn m =
     (if m = Some ''google:gemini-2.5-pro'' then Exited 1 5 Missing
      else if m = Some ''google:gemini-3-pro-preview''
        then Exited 0 5 (artifact_of [error_record ''HTTP 429''])
      else Timed_out 120)"

text \<open>
  The options with the model override \<^verbatim>\<open>--model google:gemini-2.5-flash-lite\<close>, and the
  state of a run under them in which the first attempt of batch 1 has timed out and has
  been recorded.
\<close>

definition flash_lite_args :: args where
  "flash_lite_args = default_args\<lparr>model := Some ''google:gemini-2.5-flash-lite''\<rparr>"

definition state_flash_lite_timed_out :: run_state where
  "state_flash_lite_timed_out =
     \<lparr>results = [run_batch 1 (Timed_out 120)], consecutive_api_errors = 0,
      current_model = Some ''google:gemini-2.5-flash-lite'',
      trace = [Run_batch 1 (Some ''google:gemini-2.5-flash-lite'')], reports_dir = True\<rparr>"

text \<open>
  Two artifacts of two records each, with the stats of the merge scenario; their token
  usage holds some of the keys of the merger's loop and the key \<^verbatim>\<open>numRequests\<close>, which the
  loop does not name.
\<close>

definition artifact_a :: "nat artifact" where
  "artifact_a =
     \<lparr>art_results = [1, 2],
      art_stats = \<lparr>successes = 2, failures = 0, errors = 0,
                   tokenUsage = [''total'' \<mapsto> 10, ''prompt'' \<mapsto> 6,
                                 ''numRequests'' \<mapsto> 2]\<rparr>\<rparr>"

definition artifact_b :: "nat artifact" where
  "artifact_b =
     \<lparr>art_results = [3, 4],
      art_stats = \<lparr>successes = 1, failures = 1, errors = 0,
                   tokenUsage = [''total'' \<mapsto> 5, ''completion'' \<mapsto> 2,
                                 ''numRequests'' \<mapsto> 3]\<rparr>\<rparr>"

section \<open>Properties of the batch splitter\<close>

lemma range_up_concat:
  "0 < b \<Longrightarrow> concat (map (\<lambda>i. py_slice xs i (i + b)) (range_up i (length xs) b)) = drop i xs"
proof (induction i "length xs" b rule: range_up.induct)
  case (1 start step)
  show ?case
  proof (cases "start < length xs")
    case True
    have "take step (drop start xs) @ drop step (drop start xs) = drop start xs"
      by (rule append_take_drop_id)
    then have "take step (drop start xs) @ drop (start + step) xs = drop start xs"
      by (simp add: add.commute)
    with 1 True show ?thesis
      by (subst range_up.simps) (simp add: py_slice_def add.commute)
  next
    case False
    then show ?thesis by (subst range_up.simps) simp
  qed
qed

lemma range_up_length:
  "0 < b \<Longrightarrow> length (range_up i n b) = (n - i + b - 1) div b"
proof (induction i n b rule: range_up.induct)
  case (1 start stop step)
  show ?case
  proof (cases "start < stop")
    case True
    define m where "m = stop - (start + step) + step - 1"
    have "(stop - start + step - 1) div step = Suc (m div step)"
    proof (cases "step \<le> stop - start")
      case True
      then have "stop - start + step - 1 = m + step"
        using 1(2) unfolding m_def by arith
      moreover have "(m + step) div step = Suc (m div step)"
        using 1(2) div_add_self2 [of step m] by auto
      ultimately show ?thesis by (simp only:)
    next
      case False
      with True 1(2) have a: "step \<le> stop - start + step - 1" and b: "stop - start + step - 1 < 2 * step"
        and c: "m < step"
        unfolding m_def by arith+
      from a b 1(2) have "(stop - start + step - 1) div step = 1"
        by (simp add: div_nat_eqI)
      with c show ?thesis by simp
    qed
    then have "(stop - start + step - 1) div step = Suc ((stop - (start + step) + step - 1) div step)"
      unfolding m_def .
    with 1 True show ?thesis by (subst range_up.simps) simp
  next
    case False
    with 1 show ?thesis by (subst range_up.simps) simp
  qed
qed

lemma range_up_nth:
  "0 < b \<Longrightarrow> k < length (range_up i n b) \<Longrightarrow> range_up i n b ! k = i + k * b \<and> i + k * b < n"
proof (induction i n b arbitrary: k rule: range_up.induct)
  case (1 start stop step)
  from 1(3) have lt: "start < stop" by (subst (asm) range_up.simps) (auto split: if_splits)
  show ?case
  proof (cases k)
    case 0
    with lt 1(2) show ?thesis by (subst range_up.simps) simp
  next
    case (Suc j)
    with 1 lt have "j < length (range_up (start + step) stop step)"
      by (subst (asm) (2) range_up.simps) simp
    with 1 lt have "range_up (start + step) stop step ! j = start + step + j * step \<and> start + step + j * step < stop"
      by blast
    with Suc lt 1(2) show ?thesis by (subst range_up.simps) simp
  qed
qed

lemma ceil_div_nat:
  assumes "0 < (b::nat)"
  shows "\<lceil>real n / real b\<rceil> = int ((n + b - 1) div b)"
proof -
  define q where "q = (n + b - 1) div b"
  have lo: "q * b \<le> n + b - 1"
    unfolding q_def by (rule div_times_less_eq_dividend)
  have hi: "n + b - 1 < b + q * b"
    unfolding q_def using assms by (rule dividend_less_div_times)
  from hi assms have up: "n \<le> q * b" by arith
  from lo assms have dn: "q * b + 1 \<le> n + b" by arith
  have rb: "0 < real b" using assms by simp
  from up have "real n \<le> real q * real b"
    by (metis of_nat_le_iff of_nat_mult)
  with rb have a: "real n / real b \<le> real q"
    by (simp add: pos_divide_le_eq)
  from dn have "real (q * b + 1) \<le> real (n + b)"
    by (simp only: of_nat_le_iff)
  then have "(real q - 1) * real b < real n"
    by (simp add: algebra_simps)
  with rb have b: "real q - 1 < real n / real b"
    by (simp add: pos_less_divide_eq)
  have "\<lceil>real n / real b\<rceil> = int q"
    by (rule ceiling_unique) (use a b in simp_all)
  then show ?thesis by (simp only: q_def)
qed

text \<open>
  Claim C5. For every test collection \<open>T\<close> and every batch size \<open>b > 0\<close> the splitter
  returns (it does not raise) exactly \<open>\<lceil>|T| / b\<rceil>\<close> batches, their concatenation is
  \<open>T\<close>, and every batch but the last holds exactly \<open>b\<close> elements.
\<close>

theorem split_into_batches_partition:
  assumes "0 < b"
  shows "\<exists>bs. split_into_batches T b = Inr bs
            \<and> int (length bs) = \<lceil>real (length T) / real_of_int b\<rceil>
            \<and> concat bs = T
            \<and> (\<forall>k. Suc k < length bs \<longrightarrow> int (length (bs ! k)) = b)"
proof -
  define c where "c = nat b"
  with assms have c: "0 < c" "b = int c" by simp_all
  define bs where "bs = map (\<lambda>i. py_slice T i (i + c)) (range_up 0 (length T) c)"
  have eq: "split_into_batches T b = Inr bs"
    using assms by (simp add: split_into_batches_def py_range0_def bs_def c_def)
  have cat: "concat bs = T"
    using range_up_concat [OF c(1), of T 0] by (simp add: bs_def)
  have len: "length bs = (length T + c - 1) div c"
    using range_up_length [OF c(1), of 0 "length T"] by (simp add: bs_def)
  have full: "length (bs ! k) = c" if "Suc k < length bs" for k
  proof -
    from that have k: "k < length (range_up 0 (length T) c)" and k1: "Suc k < length (range_up 0 (length T) c)"
      by (simp_all add: bs_def)
    from range_up_nth [OF c(1) k] have a: "range_up 0 (length T) c ! k = k * c" by simp
    from range_up_nth [OF c(1) k1] have b: "Suc k * c < length T" by simp
    from k a have "bs ! k = py_slice T (k * c) (k * c + c)" by (simp add: bs_def)
    with b show ?thesis by (simp add: py_slice_def)
  qed
  from eq cat len full ceil_div_nat [OF c(1), of "length T"] c(2) show ?thesis
    by auto
qed


theorem split_into_batches_partition_witness:
  "(0::int) < 2
   \<and> (\<exists>bs. split_into_batches [1, 2, 3, 4, 5 :: nat] 2 = Inr bs
          \<and> int (length bs) = \<lceil>real (length [1, 2, 3, 4, 5 :: nat]) / real_of_int 2\<rceil>
          \<and> concat bs = [1, 2, 3, 4, 5]
          \<and> (\<forall>k. Suc k < length bs \<longrightarrow> int (length (bs ! k)) = 2))"
  using split_into_batches_partition [of 2 "[1, 2, 3, 4, 5 :: nat]"] by simp

section \<open>Properties of the result classifier\<close>

text \<open>
  No character of a lowered text is a capital \<open>R\<close>, so the test
  \<^verbatim>\<open>'Rate limit' in error.lower()\<close> of \<^verbatim>\<open>check_api_errors\<close> is false for every text.
\<close>

lemma lower_char_not_R: "lower_char c \<noteq> CHR ''R''"
proof
  assume a: "lower_char c = CHR ''R''"
  define n where "n = (of_char c :: nat)"
  have r: "(of_char (CHR ''R'') :: nat) = 82" by simp
  from a have v: "(of_char (lower_char c) :: nat) = 82" by (simp only: r)
  show False
  proof (cases "(65 \<le> n \<and> n \<le> 90) \<or> (192 \<le> n \<and> n \<le> 222 \<and> n \<noteq> 215)")
    case True
    then have "lower_char c = char_of (n + 32)"
      unfolding lower_char_def Let_def n_def by (rule if_P)
    with v have "(of_char (char_of (n + 32)) :: nat) = 82" by (simp only:)
    then have m: "(n + 32) mod 256 = 82" by (simp only: of_char_of)
    from True have "65 \<le> n" "n \<le> 222" by arith+
    then have "n + 32 < 256" "82 < n + 32" by arith+
    with m show False by (simp only: mod_less) 
  next
    case False
    then have "lower_char c = c"
      unfolding lower_char_def Let_def n_def by (rule if_not_P)
    with v have "n = 82" by (simp only: n_def)
    with False show False by arith
  qed
qed

lemma mem_map_not:
  assumes "\<And>c. f c \<noteq> y"
  shows "y \<notin> set (map f xs)"
  using assms by (induction xs) auto

lemma rate_limit_phrase_never: "\<not> py_in ''Rate limit'' (py_lower e)"
proof
  assume "py_in ''Rate limit'' (py_lower e)"
  then have sub: "set ''Rate limit'' \<subseteq> set (py_lower e)"
    unfolding py_in_def by (rule set_mono_sublist)
  have "CHR ''R'' \<in> set ''Rate limit''" by simp
  with sub have "CHR ''R'' \<in> set (py_lower e)" by (rule subsetD)
  moreover have "CHR ''R'' \<notin> set (py_lower e)"
    unfolding py_lower_def by (rule mem_map_not) (rule lower_char_not_R)
  ultimately show False by (rule notE [rotated])
qed


lemma is_rate_limit_markers:
  "is_rate_limit e \<longleftrightarrow> py_in ''429'' e \<or> py_in ''Too Many Requests'' e"
  by (simp add: is_rate_limit_def rate_limit_phrase_never)

lemma py_get_error_record:
  "py_get (error_record e) ''response'' d = Some (JObj [(''error'', JStr e)])"
  by (simp add: error_record_def)

lemma py_get_error_field:
  "py_get (JObj [(''error'', JStr e)]) ''error'' d = Some (JStr e)"
  by simp

lemma count_api_errors_records:
  "count_api_errors (map error_record es) rl su =
     Some (rl + length (filter is_rate_limit es),
           su + length (filter (\<lambda>e. \<not> is_rate_limit e \<and> is_service_unavailable e) es))"
proof (induction es arbitrary: rl su)
  case Nil
  show ?case by simp
next
  case (Cons e es)
  show ?case
    by (simp only: list.map count_api_errors.simps py_get_error_record py_get_error_field
          option.case py_str.simps Let_def Cons.IH)
       simp
qed

text \<open>
  On an artifact whose records all carry an error text, the classifier counts the
  records that pass the rate-limit test and, among the others, those that pass the
  overload test; the rate-limit count decides first.
\<close>

lemma check_api_errors_records:
  "check_api_errors (artifact_of (map error_record es)) =
     (let rl = length (filter is_rate_limit es);
          su = length (filter (\<lambda>e. \<not> is_rate_limit e \<and> is_service_unavailable e) es)
      in if rl > 0 then (Some Rate_limit_429, rl, 0)
         else if su > 0 then (Some Overloaded_503, 0, su)
         else (None, 0, 0))"
  by (simp add: check_api_errors_def artifact_of_def count_api_errors_records Let_def)

lemma check_api_errors_429_priority:
  assumes "e \<in> set es" and "py_in ''429'' e \<or> py_in ''Too Many Requests'' e"
  shows "check_api_errors (artifact_of (map error_record es)) =
           (Some Rate_limit_429, length (filter is_rate_limit es), 0)"
proof -
  from assms have "e \<in> set (filter is_rate_limit es)"
    by (simp add: is_rate_limit_markers)
  then have "0 < length (filter is_rate_limit es)"
    by (rule length_pos_if_in_set)
  then show ?thesis
    by (simp add: check_api_errors_records)
qed

lemma classifier_scenario_429_and_503:
  "check_api_errors (artifact_of [error_record ''429 Too Many Requests'',
                                  error_record ''503 overloaded''])
     = (Some Rate_limit_429, 1, 0)"
  by code_simp

text \<open>
  Claim C3. An artifact in which an error text carries a rate-limit marker is to be
  classified as rate limited. The code tests the phrase \<^verbatim>\<open>Rate limit\<close> against the
  lowered text, where it cannot occur: an artifact whose only record has the error
  \<^verbatim>\<open>Rate limit exceeded\<close> is classified as carrying no API error, and the batch that
  exited with code 0 is reported as a success.
\<close>

theorem check_api_errors_misses_rate_limit_phrase:
  "check_api_errors (artifact_of [error_record ''Rate limit exceeded'']) = (None, 0, 0)
   \<and> status (run_batch 1 (Exited 0 3 (artifact_of [error_record ''Rate limit exceeded''])))
       = Success"
  by code_simp

text \<open>
  Claim C10. The classifier returns a value for every state of the artifact path: a
  missing file, a file that cannot be read and a file that is not JSON are classified
  as \<^verbatim>\<open>(None, 0, 0)\<close>, and so is parsed JSON whose top level is not an object. None of
  them is classified as rate limited or overloaded.
\<close>

theorem check_api_errors_never_raises:
  "check_api_errors Missing = (None, 0, 0)
   \<and> check_api_errors Unreadable = (None, 0, 0)
   \<and> check_api_errors Malformed = (None, 0, 0)
   \<and> check_api_errors (Parsed JNull) = (None, 0, 0)
   \<and> check_api_errors (Parsed (JBool b)) = (None, 0, 0)
   \<and> check_api_errors (Parsed (JInt i)) = (None, 0, 0)
   \<and> check_api_errors (Parsed (JStr s)) = (None, 0, 0)
   \<and> check_api_errors (Parsed (JArr xs)) = (None, 0, 0)"
  by (simp add: check_api_errors_def)

section \<open>Properties of the process supervisor\<close>

text \<open>
  Claim C4, as the code has it. When the command exits without writing its artifact, the
  outcome is never \<^verbatim>\<open>error\<close>, whatever an earlier run left at the artifact path. When no
  file is at the path, the outcome is a success for return code 0 and \<^verbatim>\<open>failed\<close> for every
  other return code, with the measured time and without an error count; it is neither
  \<^verbatim>\<open>rate_limited\<close> nor \<^verbatim>\<open>service_overloaded\<close>.
\<close>

theorem run_batch_missing_artifact:
  "status (run_batch bn (Exited return_code t (artifact_after before None))) \<noteq> Error
   \<and> run_batch bn (Exited return_code t (artifact_after Missing None))
       = \<lparr>batch_num = bn, status = (if return_code = 0 then Success else Failed),
          elapsed = Some t, error_count = None, error_type = None, error = None\<rparr>"
proof (rule conjI)
  have "artifact_after before None = before"
    by (simp add: artifact_after_def)
  then show "status (run_batch bn (Exited return_code t (artifact_after before None))) \<noteq> Error"
    by (cases "check_api_errors before") auto
next
  show "run_batch bn (Exited return_code t (artifact_after Missing None))
       = \<lparr>batch_num = bn, status = (if return_code = 0 then Success else Failed),
          elapsed = Some t, error_count = None, error_type = None, error = None\<rparr>"
    by (simp add: artifact_after_def check_api_errors_def)
qed

text \<open>
  Claim C4, as stated, fails: the command exits with code 0, it wrote no artifact and none
  was there before, and the outcome is a success. (When an earlier run of the same batch
  number left an artifact with a 503 record, the same silent exit is classified by that
  file.)
\<close>

theorem run_batch_missing_artifact_counterexample:
  "status (run_batch 1 (Exited 0 3 (artifact_after Missing None))) = Success
   \<and> status (run_batch 1 (Exited 0 3 (artifact_after Missing None))) \<noteq> Error
   \<and> status (run_batch 1 (Exited 1 1
               (artifact_after (artifact_of [error_record ''503 Service Unavailable'']) None)))
       = Service_overloaded"
  by code_simp
section \<open>Properties of the fallback model selector\<close>

lemma try_models_exhausted:
  assumes "\<forall>c \<in> set (filter (\<lambda>c. Some (fst c) \<noteq> cur) roster).
             status (run_batch bn (tool bn (Some (fst c)))) \<noteq> Success
             \<and> status (run_batch bn (tool bn (Some (fst c)))) \<noteq> Failed"
  shows "try_models tool bn cur roster st =
           Inr (None,
                st\<lparr>trace := trace st @ map (\<lambda>c. Run_batch bn (Some (fst c)))
                                         (filter (\<lambda>c. Some (fst c) \<noteq> cur) roster),
                    reports_dir := reports_dir st \<or> filter (\<lambda>c. Some (fst c) \<noteq> cur) roster \<noteq> []\<rparr>)"
  using assms
proof (induction roster arbitrary: st)
  case Nil
  show ?case by simp
next
  case (Cons c roster)
  obtain m d where c: "c = (m, d)" by (cases c)
  show ?case
  proof (cases "Some m = cur")
    case True
    with Cons c show ?thesis by simp
  next
    case False
    with Cons.prems c have nw: "status (run_batch bn (tool bn (Some m))) \<noteq> Success"
      "status (run_batch bn (tool bn (Some m))) \<noteq> Failed" by auto
    from Cons.prems False c
    have rest: "\<forall>c \<in> set (filter (\<lambda>c. Some (fst c) \<noteq> cur) roster).
             status (run_batch bn (tool bn (Some (fst c)))) \<noteq> Success
             \<and> status (run_batch bn (tool bn (Some (fst c)))) \<noteq> Failed" by auto
    show ?thesis
      using False nw c by (simp add: Let_def Cons.IH [OF rest])
  qed
qed

lemma try_models_adopts:
  assumes "filter (\<lambda>c. Some (fst c) \<noteq> cur) roster = pre @ (m, d) # post"
    and "\<forall>c \<in> set pre.
             status (run_batch bn (tool bn (Some (fst c)))) \<noteq> Success
             \<and> status (run_batch bn (tool bn (Some (fst c)))) \<noteq> Failed"
    and "status (run_batch bn (tool bn (Some m))) = Success
         \<or> status (run_batch bn (tool bn (Some m))) = Failed"
    and "results st \<noteq> []"
  shows "try_models tool bn cur roster st =
           Inr (Some m,
                st\<lparr>trace := trace st @ map (\<lambda>c. Run_batch bn (Some (fst c))) (pre @ [(m, d)]),
                    reports_dir := True,
                    results := butlast (results st) @ [run_batch bn (tool bn (Some m))]\<rparr>)"
  using assms
proof (induction roster arbitrary: st pre)
  case Nil
  then show ?case by simp
next
  case (Cons c roster)
  obtain m' d' where c: "c = (m', d')" by (cases c)
  show ?case
  proof (cases "Some m' = cur")
    case True
    with Cons.prems c have "filter (\<lambda>c. Some (fst c) \<noteq> cur) roster = pre @ (m, d) # post"
      by simp
    from Cons.IH [OF this Cons.prems(2) Cons.prems(3) Cons.prems(4)] True c
    show ?thesis by simp
  next
    case False
    with Cons.prems(1) c
    have f: "(m', d') # filter (\<lambda>c. Some (fst c) \<noteq> cur) roster = pre @ (m, d) # post"
      by simp
    show ?thesis
    proof (cases pre)
      case Nil
      with f have "m' = m" "d' = d" by simp_all
      with False c Cons.prems(3) Cons.prems(4) Nil show ?thesis
        by (simp add: Let_def)
    next
      case (Cons p pre')
      with f have p: "p = (m', d')"
        and f': "filter (\<lambda>c. Some (fst c) \<noteq> cur) roster = pre' @ (m, d) # post"
        by simp_all
      from Cons.prems(2) Cons p
      have nw: "status (run_batch bn (tool bn (Some m'))) \<noteq> Success"
        "status (run_batch bn (tool bn (Some m'))) \<noteq> Failed"
        and rest: "\<forall>c \<in> set pre'.
             status (run_batch bn (tool bn (Some (fst c)))) \<noteq> Success
             \<and> status (run_batch bn (tool bn (Some (fst c)))) \<noteq> Failed"
        by auto
      define st1 where "st1 = st\<lparr>trace := trace st @ [Run_batch bn (Some m')], reports_dir := True\<rparr>"
      have r1: "results st1 \<noteq> []" using Cons.prems(4) by (simp add: st1_def)
      from Cons.IH [OF f' rest Cons.prems(3) r1]
      show ?thesis
        using False nw c Cons p by (simp add: Let_def st1_def)
    qed
  qed
qed

lemma try_models_member:
  "try_models tool bn cur roster st = Inr (Some m, st') \<Longrightarrow> m \<in> fst ` set roster"
proof (induction roster arbitrary: st)
  case Nil
  then show ?case by simp
next
  case (Cons c roster)
  obtain m' d' where c: "c = (m', d')" by (cases c)
  show ?case
  proof (cases "Some m' = cur")
    case True
    with Cons.prems c have "try_models tool bn cur roster st = Inr (Some m, st')" by simp
    then have "m \<in> fst ` set roster" by (rule Cons.IH)
    then show ?thesis by simp
  next
    case False
    define st1 where "st1 = st\<lparr>trace := trace st @ [Run_batch bn (Some m')], reports_dir := True\<rparr>"
    show ?thesis
    proof (cases "status (run_batch bn (tool bn (Some m'))) = Success
                  \<or> status (run_batch bn (tool bn (Some m'))) = Failed")
      case True
      with Cons.prems c False have "m = m'"
        by (cases "results st = []") (simp_all add: Let_def)
      with c show ?thesis by simp
    next
      case nw: False
      with Cons.prems c False have "try_models tool bn cur roster st1 = Inr (Some m, st')"
        by (simp add: Let_def st1_def)
      then have "m \<in> fst ` set roster" by (rule Cons.IH)
      then show ?thesis by simp
    qed
  qed
qed

lemma fallback_ids_nonempty: "m \<in> fst ` set FALLBACK_MODELS \<Longrightarrow> m \<noteq> []"
  by (auto simp add: FALLBACK_MODELS_def)


lemma fallback_selection:
  fixes roster :: "(string \<times> string) list" and cur :: "string option" and bn :: int
    and tool :: tool and st :: run_state
  assumes "results st \<noteq> []"
  defines "cands \<equiv> filter (\<lambda>c. Some (fst c) \<noteq> cur) roster"
    and "fails \<equiv> (\<lambda>c::string \<times> string. status (run_batch bn (tool bn (Some (fst c)))) \<noteq> Success
                          \<and> status (run_batch bn (tool bn (Some (fst c)))) \<noteq> Failed)"
  shows "case dropWhile fails cands of
               [] \<Rightarrow>
                 try_models tool bn cur roster st =
                   Inr (None,
                        st\<lparr>trace := trace st @ map (\<lambda>c. Run_batch bn (Some (fst c))) cands,
                            reports_dir := reports_dir st \<or> cands \<noteq> []\<rparr>)
             | c # _ \<Rightarrow>
                 try_models tool bn cur roster st =
                   Inr (Some (fst c),
                        st\<lparr>trace := trace st @ map (\<lambda>c. Run_batch bn (Some (fst c)))
                                                 (takeWhile fails cands @ [c]),
                            reports_dir := True,
                            results := butlast (results st)
                                       @ [run_batch bn (tool bn (Some (fst c)))]\<rparr>)"
proof (cases "dropWhile fails cands")
  case Nil
  then have "\<forall>c \<in> set cands. fails c"
    by (rule iffD1 [OF dropWhile_eq_Nil_conv])
  then have "try_models tool bn cur roster st =
                 Inr (None,
                      st\<lparr>trace := trace st @ map (\<lambda>c. Run_batch bn (Some (fst c))) cands,
                          reports_dir := reports_dir st \<or> cands \<noteq> []\<rparr>)"
    unfolding cands_def fails_def by (rule try_models_exhausted [where tool = tool and bn = bn])
  then show ?thesis unfolding Nil by (simp only: list.case)
next
  case (Cons c post)
  obtain m d where c: "c = (m, d)" by (cases c)
  from Cons have both: "cands = takeWhile fails cands @ c # post \<and> \<not> fails c"
    by (rule iffD1 [OF dropWhile_eq_Cons_conv])
  from both have dc: "cands = takeWhile fails cands @ c # post" by (rule conjunct1)
  from both have nf: "\<not> fails c" by (rule conjunct2)
  from dc c have dec: "filter (\<lambda>c. Some (fst c) \<noteq> cur) roster = takeWhile fails cands @ (m, d) # post"
    by (simp only: cands_def [symmetric])
  have "\<forall>c \<in> set (takeWhile fails cands). fails c"
    by (blast dest: set_takeWhileD)
  then have pre: "\<forall>c \<in> set (takeWhile fails cands).
           status (run_batch bn (tool bn (Some (fst c)))) \<noteq> Success
           \<and> status (run_batch bn (tool bn (Some (fst c)))) \<noteq> Failed"
    unfolding fails_def .
  from nf c have w: "status (run_batch bn (tool bn (Some m))) = Success
       \<or> status (run_batch bn (tool bn (Some m))) = Failed"
    unfolding fails_def by simp
  have "try_models tool bn cur roster st =
           Inr (Some m,
                st\<lparr>trace := trace st @ map (\<lambda>c. Run_batch bn (Some (fst c))) (takeWhile fails cands @ [(m, d)]),
                    reports_dir := True,
                    results := butlast (results st) @ [run_batch bn (tool bn (Some m))]\<rparr>)"
    by (rule try_models_adopts [where tool = tool and bn = bn, OF dec pre w assms(1)])
  then show ?thesis unfolding Cons c by (simp only: list.case fst_conv)
qed

lemma fallback_adoption:
  assumes h: "\<not> no_fallback a" "try_fallback_models tool bn
                    (st\<lparr>consecutive_api_errors := consecutive_api_errors st + 1\<rparr>)
                    (current_model st) = Inr (Some m, st2)"
  shows "on_api_failure a tool bn st =
                    Continue (st2\<lparr>consecutive_api_errors := 0, current_model := Some m\<rparr>)"
proof -
  from h(2) have "m \<in> fst ` set FALLBACK_MODELS"
    unfolding try_fallback_models_def by (rule try_models_member)
  then have "m \<noteq> []" by (rule fallback_ids_nonempty)
  with h show ?thesis
    by (simp add: on_api_failure_def Let_def)
qed

lemma fallback_roster_selection:
  fixes tool :: tool
  assumes "results st \<noteq> []"
  shows "try_fallback_models tool bn st cur =
           (let cands = filter (\<lambda>c. Some (fst c) \<noteq> cur) FALLBACK_MODELS;
                rejected = (\<lambda>c. status (run_batch bn (tool bn (Some (fst c)))) \<noteq> Success
                                \<and> status (run_batch bn (tool bn (Some (fst c)))) \<noteq> Failed)
            in case dropWhile rejected cands of
                 [] \<Rightarrow>
                   Inr (None,
                        st\<lparr>trace := trace st @ map (\<lambda>c. Run_batch bn (Some (fst c))) cands,
                            reports_dir := reports_dir st \<or> cands \<noteq> []\<rparr>)
               | c # _ \<Rightarrow>
                   Inr (Some (fst c),
                        st\<lparr>trace := trace st @ map (\<lambda>c. Run_batch bn (Some (fst c)))
                                                 (takeWhile rejected cands @ [c]),
                            reports_dir := True,
                            results := butlast (results st)
                                       @ [run_batch bn (tool bn (Some (fst c)))]\<rparr>))"
proof -
  define cands where "cands = filter (\<lambda>c. Some (fst c) \<noteq> cur) FALLBACK_MODELS"
  define rejected where "rejected = (\<lambda>c::string \<times> string.
        status (run_batch bn (tool bn (Some (fst c)))) \<noteq> Success
        \<and> status (run_batch bn (tool bn (Some (fst c)))) \<noteq> Failed)"
  from fallback_selection [where tool = tool and bn = bn and cur = cur
                             and roster = FALLBACK_MODELS, OF assms]
  have sel: "case dropWhile rejected cands of
               [] \<Rightarrow>
                 try_models tool bn cur FALLBACK_MODELS st =
                   Inr (None,
                        st\<lparr>trace := trace st @ map (\<lambda>c. Run_batch bn (Some (fst c))) cands,
                            reports_dir := reports_dir st \<or> cands \<noteq> []\<rparr>)
             | c # _ \<Rightarrow>
                 try_models tool bn cur FALLBACK_MODELS st =
                   Inr (Some (fst c),
                        st\<lparr>trace := trace st @ map (\<lambda>c. Run_batch bn (Some (fst c)))
                                                 (takeWhile rejected cands @ [c]),
                            reports_dir := True,
                            results := butlast (results st)
                                       @ [run_batch bn (tool bn (Some (fst c)))]\<rparr>)"
    unfolding cands_def rejected_def .
  have "try_fallback_models tool bn st cur =
          (case dropWhile rejected cands of
                 [] \<Rightarrow>
                   Inr (None,
                        st\<lparr>trace := trace st @ map (\<lambda>c. Run_batch bn (Some (fst c))) cands,
                            reports_dir := reports_dir st \<or> cands \<noteq> []\<rparr>)
               | c # _ \<Rightarrow>
                   Inr (Some (fst c),
                        st\<lparr>trace := trace st @ map (\<lambda>c. Run_batch bn (Some (fst c)))
                                                 (takeWhile rejected cands @ [c]),
                            reports_dir := True,
                            results := butlast (results st)
                                       @ [run_batch bn (tool bn (Some (fst c)))]\<rparr>))"
  proof (cases "dropWhile rejected cands")
    case Nil
    from sel have e: "try_models tool bn cur FALLBACK_MODELS st =
                   Inr (None,
                        st\<lparr>trace := trace st @ map (\<lambda>c. Run_batch bn (Some (fst c))) cands,
                            reports_dir := reports_dir st \<or> cands \<noteq> []\<rparr>)"
      unfolding Nil by (simp only: list.case)
    show ?thesis
      unfolding Nil try_fallback_models_def e by (simp only: list.case)
  next
    case (Cons c post)
    from sel have e: "try_models tool bn cur FALLBACK_MODELS st =
                   Inr (Some (fst c),
                        st\<lparr>trace := trace st @ map (\<lambda>c. Run_batch bn (Some (fst c)))
                                                 (takeWhile rejected cands @ [c]),
                            reports_dir := True,
                            results := butlast (results st)
                                       @ [run_batch bn (tool bn (Some (fst c)))]\<rparr>)"
      unfolding Cons by (simp only: list.case)
    show ?thesis
      unfolding Cons try_fallback_models_def e by (simp only: list.case)
  qed
  then show ?thesis
    unfolding Let_def cands_def rejected_def .
qed

lemma fallback_roster_controller:
  fixes tool :: tool
  assumes "results st \<noteq> []" and "\<not> no_fallback a"
  shows "on_api_failure a tool bn st =
           (let cands = filter (\<lambda>c. Some (fst c) \<noteq> current_model st) FALLBACK_MODELS;
                rejected = (\<lambda>c. status (run_batch bn (tool bn (Some (fst c)))) \<noteq> Success
                                \<and> status (run_batch bn (tool bn (Some (fst c)))) \<noteq> Failed)
            in case dropWhile rejected cands of
                 [] \<Rightarrow>
                   circuit_breaker bn
                     (st\<lparr>consecutive_api_errors := consecutive_api_errors st + 1,
                         trace := trace st @ map (\<lambda>c. Run_batch bn (Some (fst c))) cands,
                         reports_dir := reports_dir st \<or> cands \<noteq> []\<rparr>)
               | c # _ \<Rightarrow>
                   Continue
                     (st\<lparr>consecutive_api_errors := 0,
                         current_model := Some (fst c),
                         trace := trace st @ map (\<lambda>c. Run_batch bn (Some (fst c)))
                                              (takeWhile rejected cands @ [c]),
                         reports_dir := True,
                         results := butlast (results st)
                                    @ [run_batch bn (tool bn (Some (fst c)))]\<rparr>))"
proof -
  define st1 where "st1 = st\<lparr>consecutive_api_errors := consecutive_api_errors st + 1\<rparr>"
  define cands where "cands = filter (\<lambda>c. Some (fst c) \<noteq> current_model st) FALLBACK_MODELS"
  define rejected where "rejected = (\<lambda>c::string \<times> string.
        status (run_batch bn (tool bn (Some (fst c)))) \<noteq> Success
        \<and> status (run_batch bn (tool bn (Some (fst c)))) \<noteq> Failed)"
  have r1: "results st1 \<noteq> []" using assms(1) by (simp add: st1_def)
  have sel: "try_fallback_models tool bn st1 (current_model st) =
          (case dropWhile rejected cands of
                 [] \<Rightarrow>
                   Inr (None,
                        st1\<lparr>trace := trace st1 @ map (\<lambda>c. Run_batch bn (Some (fst c))) cands,
                            reports_dir := reports_dir st1 \<or> cands \<noteq> []\<rparr>)
               | c # _ \<Rightarrow>
                   Inr (Some (fst c),
                        st1\<lparr>trace := trace st1 @ map (\<lambda>c. Run_batch bn (Some (fst c)))
                                                 (takeWhile rejected cands @ [c]),
                            reports_dir := True,
                            results := butlast (results st1)
                                       @ [run_batch bn (tool bn (Some (fst c)))]\<rparr>))"
    using fallback_roster_selection [where tool = tool and bn = bn and cur = "current_model st", OF r1]
    unfolding Let_def cands_def rejected_def .
  have "on_api_failure a tool bn st =
          (case dropWhile rejected cands of
                 [] \<Rightarrow>
                   circuit_breaker bn
                     (st\<lparr>consecutive_api_errors := consecutive_api_errors st + 1,
                         trace := trace st @ map (\<lambda>c. Run_batch bn (Some (fst c))) cands,
                         reports_dir := reports_dir st \<or> cands \<noteq> []\<rparr>)
               | c # _ \<Rightarrow>
                   Continue
                     (st\<lparr>consecutive_api_errors := 0,
                         current_model := Some (fst c),
                         trace := trace st @ map (\<lambda>c. Run_batch bn (Some (fst c)))
                                              (takeWhile rejected cands @ [c]),
                         reports_dir := True,
                         results := butlast (results st)
                                    @ [run_batch bn (tool bn (Some (fst c)))]\<rparr>))"
  proof (cases "dropWhile rejected cands")
    case Nil
    from sel have e: "try_fallback_models tool bn
                        (st\<lparr>consecutive_api_errors := consecutive_api_errors st + 1\<rparr>)
                        (current_model st) =
                   Inr (None,
                        st\<lparr>consecutive_api_errors := consecutive_api_errors st + 1,
                           trace := trace st @ map (\<lambda>c. Run_batch bn (Some (fst c))) cands,
                           reports_dir := reports_dir st \<or> cands \<noteq> []\<rparr>)"
      unfolding Nil st1_def by (simp only: list.case) simp
    show ?thesis
      unfolding Nil using e assms(2) by (simp add: on_api_failure_def Let_def)
  next
    case (Cons c post)
    then have "c \<in> set (dropWhile rejected cands)" by simp
    then have "c \<in> set cands" by (rule set_dropWhileD)
    then have "fst c \<in> fst ` set FALLBACK_MODELS" by (auto simp add: cands_def)
    then have ne: "fst c \<noteq> []" by (rule fallback_ids_nonempty)
    from sel have e: "try_fallback_models tool bn
                        (st\<lparr>consecutive_api_errors := consecutive_api_errors st + 1\<rparr>)
                        (current_model st) =
                   Inr (Some (fst c),
                        st\<lparr>consecutive_api_errors := consecutive_api_errors st + 1,
                           trace := trace st @ map (\<lambda>c. Run_batch bn (Some (fst c)))
                                                 (takeWhile rejected cands @ [c]),
                           reports_dir := True,
                           results := butlast (results st)
                                      @ [run_batch bn (tool bn (Some (fst c)))]\<rparr>)"
      unfolding Cons st1_def by (simp only: list.case) simp
    show ?thesis
      unfolding Cons using e assms(2) ne by (simp add: on_api_failure_def Let_def)
  qed
  then show ?thesis
    unfolding Let_def cands_def rejected_def .
qed

section \<open>Properties of the escalation controller\<close>

lemma try_models_preserves:
  "try_models tool bn cur roster st = Inr (r, st') \<Longrightarrow>
     consecutive_api_errors st' = consecutive_api_errors st
     \<and> current_model st' = current_model st
     \<and> (\<exists>evs. trace st' = trace st @ evs \<and> (\<forall>e \<in> set evs. \<exists>b m. e = Run_batch b m))"
proof (induction roster arbitrary: st)
  case Nil
  then show ?case by simp
next
  case (Cons c roster)
  obtain m' d' where c: "c = (m', d')" by (cases c)
  show ?case
  proof (cases "Some m' = cur")
    case True
    with Cons.prems c have "try_models tool bn cur roster st = Inr (r, st')" by simp
    then show ?thesis by (rule Cons.IH)
  next
    case False
    define st1 where "st1 = st\<lparr>trace := trace st @ [Run_batch bn (Some m')], reports_dir := True\<rparr>"
    show ?thesis
    proof (cases "status (run_batch bn (tool bn (Some m'))) = Success
                  \<or> status (run_batch bn (tool bn (Some m'))) = Failed")
      case True
      with Cons.prems c False
      have "st' = st1\<lparr>results := butlast (results st1) @ [run_batch bn (tool bn (Some m'))]\<rparr>"
        by (cases "results st = []") (auto simp add: Let_def st1_def)
      then show ?thesis by (simp add: st1_def)
    next
      case nw: False
      with Cons.prems c False have "try_models tool bn cur roster st1 = Inr (r, st')"
        by (simp add: Let_def st1_def)
      then have ih: "consecutive_api_errors st' = consecutive_api_errors st1
         \<and> current_model st' = current_model st1
         \<and> (\<exists>evs. trace st' = trace st1 @ evs \<and> (\<forall>e \<in> set evs. \<exists>b m. e = Run_batch b m))"
        by (rule Cons.IH)
      then obtain evs where evs: "trace st' = trace st1 @ evs" "\<forall>e \<in> set evs. \<exists>b m. e = Run_batch b m"
        by blast
      then have "trace st' = trace st @ (Run_batch bn (Some m') # evs)"
        "\<forall>e \<in> set (Run_batch bn (Some m') # evs). \<exists>b m. e = Run_batch b m"
        by (simp_all add: st1_def)
      then have "\<exists>evs. trace st' = trace st @ evs \<and> (\<forall>e \<in> set evs. \<exists>b m. e = Run_batch b m)"
        by blast
      with ih show ?thesis by (simp add: st1_def)
    qed
  qed
qed

lemma on_api_failure_counter:
  "consecutive_api_errors (state_of (on_api_failure a tool bn st)) =
     (if \<not> no_fallback a
         \<and> (\<exists>m st2. try_fallback_models tool bn
                        (st\<lparr>consecutive_api_errors := consecutive_api_errors st + 1\<rparr>)
                        (current_model st) = Inr (Some m, st2))
      then 0 else consecutive_api_errors st + 1)"
proof (cases "no_fallback a")
  case True
  then show ?thesis
    by (simp add: on_api_failure_def circuit_breaker_def save_partial_and_exit_def Let_def)
next
  case nf: False
  define st1 where "st1 = st\<lparr>consecutive_api_errors := consecutive_api_errors st + 1\<rparr>"
  show ?thesis
  proof (cases "try_fallback_models tool bn st1 (current_model st)")
    case (Inl e)
    with nf show ?thesis
      by (simp add: on_api_failure_def Let_def st1_def)
  next
    case (Inr p)
    obtain r st2 where p: "p = (r, st2)" by (cases p)
    from Inr p have pres: "consecutive_api_errors st2 = consecutive_api_errors st1"
      unfolding try_fallback_models_def by (blast dest: try_models_preserves)
    show ?thesis
    proof (cases r)
      case None
      with nf Inr p pres show ?thesis
        by (simp add: on_api_failure_def circuit_breaker_def save_partial_and_exit_def
              Let_def st1_def)
    next
      case (Some m)
      from fallback_adoption [OF nf, of tool bn st m st2] Inr p Some
      have "on_api_failure a tool bn st =
              Continue (st2\<lparr>consecutive_api_errors := 0, current_model := Some m\<rparr>)"
        by (simp add: st1_def)
      with nf Inr p Some show ?thesis by (auto simp add: st1_def)
    qed
  qed
qed

text \<open>
  Claim C1, as the code has it. After the controller has acted on an outcome, the failure
  counter is 0 for a success, unchanged for \<^verbatim>\<open>failed\<close> and for \<^verbatim>\<open>rate_limited\<close>, one
  higher for \<^verbatim>\<open>error\<close>, and for \<^verbatim>\<open>timeout\<close> and \<^verbatim>\<open>service_overloaded\<close> one higher unless
  fallback is enabled and adopts a candidate, in which case it is 0.
\<close>

theorem failure_counter_transitions:
  "(let c = consecutive_api_errors st;
        c' = consecutive_api_errors (state_of (handle_outcome a tool bn result st));
        adopted = (\<not> no_fallback a
                   \<and> (\<exists>m st2. try_fallback_models tool bn
                                 (st\<lparr>consecutive_api_errors := c + 1\<rparr>)
                                 (current_model st) = Inr (Some m, st2)))
    in (status result = Success \<longrightarrow> c' = 0)
       \<and> (status result = Failed \<longrightarrow> c' = c)
       \<and> (status result = Rate_limited \<longrightarrow> c' = c)
       \<and> (status result = Error \<longrightarrow> c' = c + 1)
       \<and> (status result = Timeout \<or> status result = Service_overloaded
            \<longrightarrow> c' = (if adopted then 0 else c + 1)))"
proof (cases "status result")
  case Success
  then show ?thesis by (simp add: handle_outcome_def Let_def)
next
  case Failed
  then show ?thesis by (simp add: handle_outcome_def Let_def)
next
  case Timeout
  then show ?thesis
    by (simp add: handle_outcome_def Let_def on_api_failure_counter)
next
  case Rate_limited
  then show ?thesis
    by (simp add: handle_outcome_def save_partial_and_exit_def Let_def)
next
  case Service_overloaded
  then show ?thesis
    by (simp add: handle_outcome_def Let_def on_api_failure_counter)
next
  case Error
  then show ?thesis
    by (simp add: handle_outcome_def circuit_breaker_def save_partial_and_exit_def Let_def)
qed

theorem failure_counter_transitions_witness:
  "consecutive_api_errors
     (state_of (handle_outcome default_args tool_pro_only 2 (run_batch 2 (Exited 0 1 Missing))
                  state_after_timeout)) = 0
   \<and> consecutive_api_errors
       (state_of (handle_outcome default_args tool_pro_only 2 (run_batch 2 (Exited 1 1 Missing))
                    state_after_timeout)) = consecutive_api_errors state_after_timeout
   \<and> consecutive_api_errors
       (state_of (handle_outcome default_args tool_pro_only 2 (run_batch 2 (Raised ''boom''))
                    state_after_timeout)) = consecutive_api_errors state_after_timeout + 1
   \<and> consecutive_api_errors
       (state_of (handle_outcome (default_args\<lparr>no_fallback := True\<rparr>) tool_pro_only 2
                    (run_batch 2 (Timed_out 120)) state_after_timeout))
       = consecutive_api_errors state_after_timeout + 1"
  using failure_counter_transitions
          [of state_after_timeout default_args tool_pro_only 2 "run_batch 2 (Exited 0 1 Missing)"]
        failure_counter_transitions
          [of state_after_timeout default_args tool_pro_only 2 "run_batch 2 (Exited 1 1 Missing)"]
        failure_counter_transitions
          [of state_after_timeout default_args tool_pro_only 2 "run_batch 2 (Raised ''boom'')"]
        failure_counter_transitions
          [of state_after_timeout "default_args\<lparr>no_fallback := True\<rparr>" tool_pro_only 2
              "run_batch 2 (Timed_out 120)"]
  by (simp add: Let_def check_api_errors_def)

text \<open>
  Claim C1, as stated, fails. With fallback enabled, batch 1 ends in \<^verbatim>\<open>error\<close> and leaves
  the counter at 1; batch 2 times out, the third fallback candidate is adopted, and the
  counter after this timeout is 0.
\<close>

theorem failure_counter_counterexample:
  "consecutive_api_errors
     (state_of (process_batch default_args tool_pro_only [[1, 2], [3, 4 :: nat]] 2 0
                  (initial_state default_args False))) = 1
   \<and> status (run_batch 2 (tool_pro_only 2 None)) = Timeout
   \<and> consecutive_api_errors
       (state_of (process_batch default_args tool_pro_only [[1, 2], [3, 4 :: nat]] 2 1
                    (state_of (process_batch default_args tool_pro_only [[1, 2], [3, 4]] 2 0
                                 (initial_state default_args False))))) = 0"
  by code_simp



lemma circuit_breaker_continue:
  "circuit_breaker bn st = Continue st' \<Longrightarrow> st' = st"
  by (simp add: circuit_breaker_def save_partial_and_exit_def split: if_splits)

lemma on_api_failure_continue_trace:
  assumes "on_api_failure a tool bn st = Continue st'"
  shows "\<exists>evs. trace st' = trace st @ evs \<and> (\<forall>e \<in> set evs. \<exists>b m. e = Run_batch b m)"
proof (cases "no_fallback a")
  case True
  with assms have "circuit_breaker bn (st\<lparr>consecutive_api_errors := consecutive_api_errors st + 1\<rparr>) = Continue st'"
    by (simp add: on_api_failure_def Let_def)
  then have "st' = st\<lparr>consecutive_api_errors := consecutive_api_errors st + 1\<rparr>"
    by (rule circuit_breaker_continue)
  then show ?thesis by simp
next
  case nf: False
  define st1 where "st1 = st\<lparr>consecutive_api_errors := consecutive_api_errors st + 1\<rparr>"
  show ?thesis
  proof (cases "try_fallback_models tool bn st1 (current_model st)")
    case (Inl e)
    with nf assms show ?thesis
      by (simp add: on_api_failure_def Let_def st1_def)
  next
    case (Inr p)
    obtain r st2 where p: "p = (r, st2)" by (cases p)
    from Inr p have "\<exists>evs. trace st2 = trace st1 @ evs \<and> (\<forall>e \<in> set evs. \<exists>b m. e = Run_batch b m)"
      unfolding try_fallback_models_def by (blast dest: try_models_preserves)
    then have tr: "\<exists>evs. trace st2 = trace st @ evs \<and> (\<forall>e \<in> set evs. \<exists>b m. e = Run_batch b m)"
      by (simp add: st1_def)
    show ?thesis
    proof (cases "truthy r")
      case True
      with nf assms Inr p have "st' = st2\<lparr>consecutive_api_errors := 0, current_model := r\<rparr>"
        by (simp add: on_api_failure_def Let_def st1_def)
      with tr show ?thesis by simp
    next
      case False
      with nf assms Inr p have "circuit_breaker bn st2 = Continue st'"
        by (simp add: on_api_failure_def Let_def st1_def)
      then have "st' = st2" by (rule circuit_breaker_continue)
      with tr show ?thesis by simp
    qed
  qed
qed

lemma handle_outcome_continue_trace:
  assumes "handle_outcome a tool bn result st = Continue st'"
  shows "\<exists>evs. trace st' = trace st @ evs \<and> (\<forall>e \<in> set evs. \<exists>b m. e = Run_batch b m)"
proof (cases "status result")
  case Success
  with assms have "st' = st\<lparr>consecutive_api_errors := 0\<rparr>"
    by (simp add: handle_outcome_def)
  then show ?thesis by simp
next
  case Failed
  with assms have "st' = st" by (simp add: handle_outcome_def)
  then show ?thesis by simp
next
  case Timeout
  with assms have "on_api_failure a tool bn st = Continue st'"
    by (simp add: handle_outcome_def)
  then show ?thesis by (rule on_api_failure_continue_trace)
next
  case Rate_limited
  with assms show ?thesis
    by (simp add: handle_outcome_def save_partial_and_exit_def)
next
  case Service_overloaded
  with assms have "on_api_failure a tool bn st = Continue st'"
    by (simp add: handle_outcome_def)
  then show ?thesis by (rule on_api_failure_continue_trace)
next
  case Error
  with assms
  have "circuit_breaker bn (st\<lparr>consecutive_api_errors := consecutive_api_errors st + 1\<rparr>) = Continue st'"
    by (simp add: handle_outcome_def)
  then have "st' = st\<lparr>consecutive_api_errors := consecutive_api_errors st + 1\<rparr>"
    by (rule circuit_breaker_continue)
  then show ?thesis by simp
qed

lemma last_run_not_sleep:
  assumes "\<forall>e \<in> set evs. \<exists>b m. e = Run_batch b m"
  shows "last (xs @ Run_batch b0 m0 # evs) \<noteq> Sleep d"
proof (cases "evs = []")
  case True
  then show ?thesis by simp
next
  case False
  then have "last (xs @ Run_batch b0 m0 # evs) = last evs" by simp
  moreover from False have "last evs \<in> set evs" by (rule last_in_set)
  ultimately show ?thesis using assms by auto
qed

text \<open>
  The guard of the cooldown reads the outcome of the first attempt. When a pass through
  the loop body does not halt, the last thing it does is the cooldown exactly when the
  batch is not the last of the range and that outcome is a success or \<^verbatim>\<open>failed\<close>; after any
  other outcome the last thing it does is a run of the tool.
\<close>

lemma cooldown_guard_first_attempt:
  assumes "process_batch a tool batches end_idx i st = Continue st'"
  shows "trace st' \<noteq> []
         \<and> (last (trace st') = Sleep (delay a)
              \<longleftrightarrow> i < end_idx - 1
                  \<and> (status (run_batch (i + 1) (tool (i + 1) (current_model st))) = Success
                     \<or> status (run_batch (i + 1) (tool (i + 1) (current_model st))) = Failed))"
proof -
  define result where "result = run_batch (i + 1) (tool (i + 1) (current_model st))"
  define st1 where "st1 = st\<lparr>reports_dir := True,
                        trace := trace st @ [Run_batch (i + 1) (current_model st)],
                        results := results st @ [result]\<rparr>"
  from assms obtain batch where "py_index batches i = Inr batch"
    by (cases "py_index batches i") (simp_all add: process_batch_def Let_def)
  with assms obtain st2 where h: "handle_outcome a tool (i + 1) result st1 = Continue st2"
    and c: "cooldown a end_idx i result st2 = Continue st'"
    by (cases "handle_outcome a tool (i + 1) result st1")
       (simp_all add: process_batch_def Let_def result_def st1_def)
  from handle_outcome_continue_trace [OF h]
  obtain evs where evs: "trace st2 = trace st1 @ evs" "\<forall>e \<in> set evs. \<exists>b m. e = Run_batch b m"
    by blast
  then have t2: "trace st2 = trace st @ Run_batch (i + 1) (current_model st) # evs"
    by (simp add: st1_def)
  show ?thesis
  proof (cases "i < end_idx - 1 \<and> (status result = Success \<or> status result = Failed)")
    case True
    with c have "st' = st2\<lparr>trace := trace st2 @ [Sleep (delay a)]\<rparr>"
      by (auto simp add: cooldown_def split: if_splits)
    with True show ?thesis by (simp add: result_def)
  next
    case False
    with c have "st' = st2" by (auto simp add: cooldown_def)
    with t2 have t: "trace st' = trace st @ Run_batch (i + 1) (current_model st) # evs" by simp
    have "last (trace st @ Run_batch (i + 1) (current_model st) # evs) \<noteq> Sleep (delay a)"
      using evs(2) by (rule last_run_not_sleep)
    with t False show ?thesis by (simp add: result_def)
  qed
qed

text \<open>
  Claim C7 says that the cooldown separates any two batches of which the first did not
  halt the run, and the comment above the guard says the same (\<^verbatim>\<open>Apply delay after ALL
  batches\<close>). The code does not do so. In a run of four batches, batch 1 ends in \<^verbatim>\<open>error\<close>
  below the threshold and batch 2 starts at once; batch 2 times out, a fallback model is
  adopted with the outcome \<^verbatim>\<open>failed\<close>, which is what the results hold for batch 2, and
  batch 3 starts at once, since the guard still reads the timeout; only between batches 3
  and 4 is the cooldown applied.
\<close>

theorem cooldown_skipped_after_error_and_adopted_fallback:
  "fst (main default_args (Inline_config (Some [1, 2, 3, 4, 5, 6, 7, 8 :: nat])) tool_pro_only False)
     = Exit 0
   \<and> map status (results (snd (main default_args (Inline_config (Some [1, 2, 3, 4, 5, 6, 7, 8 :: nat]))
                                  tool_pro_only False)))
       = [Error, Failed, Failed, Failed]
   \<and> status (run_batch 2 (tool_pro_only 2 None)) = Timeout
   \<and> trace (snd (main default_args (Inline_config (Some [1, 2, 3, 4, 5, 6, 7, 8 :: nat]))
                    tool_pro_only False))
       = [Run_batch 1 None,
          Run_batch 2 None,
          Run_batch 2 (Some ''google:gemini-2.5-flash-lite''),
          Run_batch 2 (Some ''google:gemini-3-pro-preview''),
          Run_batch 2 (Some ''google:gemini-2.5-pro''),
          Run_batch 3 (Some ''google:gemini-2.5-pro''),
          Sleep 60,
          Run_batch 4 (Some ''google:gemini-2.5-pro''),
          Save_summary [run_batch 1 (Raised ''boom''), run_batch 2 (Exited 1 5 Missing),
                        run_batch 3 (Exited 1 5 Missing), run_batch 4 (Exited 1 5 Missing)]]"
  by code_simp

section \<open>Fallback escalation in the batch loop\<close>

lemma circuit_breaker_trace:
  "\<exists>evs. trace (state_of (circuit_breaker bn st)) = trace st @ evs"
  by (simp add: circuit_breaker_def save_partial_and_exit_def)

lemma on_api_failure_trace:
  "\<exists>evs. trace (state_of (on_api_failure a tool bn st)) = trace st @ evs"
proof (cases "no_fallback a")
  case True
  from circuit_breaker_trace [of bn "st\<lparr>consecutive_api_errors := consecutive_api_errors st + 1\<rparr>"]
  show ?thesis using True by (simp add: on_api_failure_def Let_def)
next
  case nf: False
  define st1 where "st1 = st\<lparr>consecutive_api_errors := consecutive_api_errors st + 1\<rparr>"
  show ?thesis
  proof (cases "try_fallback_models tool bn st1 (current_model st)")
    case (Inl e)
    with nf show ?thesis
      by (simp add: on_api_failure_def Let_def st1_def)
  next
    case (Inr p)
    obtain r st2 where p: "p = (r, st2)" by (cases p)
    from Inr p have "\<exists>evs. trace st2 = trace st1 @ evs \<and> (\<forall>e \<in> set evs. \<exists>b m. e = Run_batch b m)"
      unfolding try_fallback_models_def by (blast dest: try_models_preserves)
    then obtain evs where tr: "trace st2 = trace st @ evs"
      by (auto simp add: st1_def)
    show ?thesis
    proof (cases "truthy r")
      case True
      with nf Inr p have "on_api_failure a tool bn st
                            = Continue (st2\<lparr>consecutive_api_errors := 0, current_model := r\<rparr>)"
        by (simp add: on_api_failure_def Let_def st1_def)
      with tr show ?thesis by simp
    next
      case False
      with nf Inr p have "on_api_failure a tool bn st = circuit_breaker bn st2"
        by (simp add: on_api_failure_def Let_def st1_def)
      moreover from circuit_breaker_trace [of bn st2]
      obtain evs' where "trace (state_of (circuit_breaker bn st2)) = trace st2 @ evs'" by blast
      ultimately show ?thesis using tr by simp
    qed
  qed
qed

lemma handle_outcome_trace:
  "\<exists>evs. trace (state_of (handle_outcome a tool bn result st)) = trace st @ evs"
proof (cases "status result")
  case Success
  then show ?thesis by (simp add: handle_outcome_def)
next
  case Failed
  then show ?thesis by (simp add: handle_outcome_def)
next
  case Timeout
  with on_api_failure_trace [of a tool bn st] show ?thesis by (simp add: handle_outcome_def)
next
  case Rate_limited
  then show ?thesis by (simp add: handle_outcome_def save_partial_and_exit_def)
next
  case Service_overloaded
  with on_api_failure_trace [of a tool bn st] show ?thesis by (simp add: handle_outcome_def)
next
  case Error
  from circuit_breaker_trace [of bn "st\<lparr>consecutive_api_errors := consecutive_api_errors st + 1\<rparr>"]
  show ?thesis using Error by (simp add: handle_outcome_def)
qed

lemma cooldown_trace:
  "\<exists>evs. trace (state_of (cooldown a end_idx i result st)) = trace st @ evs"
  by (simp add: cooldown_def)

lemma process_batch_first_run:
  assumes "py_index batches i = Inr batch"
  shows "\<exists>evs. trace (state_of (process_batch a tool batches end_idx i st))
                 = trace st @ Run_batch (i + 1) (current_model st) # evs"
proof -
  define result where "result = run_batch (i + 1) (tool (i + 1) (current_model st))"
  define st1 where "st1 = st\<lparr>reports_dir := True,
                        trace := trace st @ [Run_batch (i + 1) (current_model st)],
                        results := results st @ [result]\<rparr>"
  from handle_outcome_trace [of a tool "i + 1" result st1]
  obtain evs where h: "trace (state_of (handle_outcome a tool (i + 1) result st1))
                         = trace st @ Run_batch (i + 1) (current_model st) # evs"
    by (auto simp add: st1_def)
  show ?thesis
  proof (cases "handle_outcome a tool (i + 1) result st1")
    case (Halt e st2)
    with assms have "process_batch a tool batches end_idx i st = Halt e st2"
      by (simp add: process_batch_def Let_def result_def st1_def)
    with h Halt show ?thesis by simp
  next
    case (Continue st2)
    with assms have p: "process_batch a tool batches end_idx i st
                       = cooldown a end_idx i result st2"
      by (simp add: process_batch_def Let_def result_def st1_def)
    from cooldown_trace [of a end_idx i result st2]
    obtain evs' where "trace (state_of (cooldown a end_idx i result st2)) = trace st2 @ evs'"
      by blast
    with h Continue p show ?thesis by simp
  qed
qed

text \<open>
  Claim C9. A fallback escalation of the selector \<^verbatim>\<open>_try_fallback_models\<close>, as the batch loop
  calls it, runs over the roster \<^verbatim>\<open>FALLBACK_MODELS\<close>: the candidates are its entries other than
  the current model, in roster order. Every candidate before the first one whose retry
  outcome is a success or \<^verbatim>\<open>failed\<close> is run once for the batch, that first one is run and its
  identifier is returned, and its outcome takes the place of the last entry of the results
  list, which is not extended. When every candidate ends in another outcome, all of them
  are run, \<open>None\<close> is returned and the results are left as they are. In the loop, with
  fallback enabled, an adopted candidate becomes the current model and the failure counter
  is reset; with no adoption the circuit breaker decides on the incremented counter. The
  next pass through the loop starts by running its batch under the current model of the
  state it is given.
\<close>

theorem fallback_selection_in_roster_order:
  fixes tool :: tool
  assumes "results st \<noteq> []"
  shows "try_fallback_models tool bn st cur =
           (let cands = filter (\<lambda>c. Some (fst c) \<noteq> cur) FALLBACK_MODELS;
                rejected = (\<lambda>c. status (run_batch bn (tool bn (Some (fst c)))) \<noteq> Success
                                \<and> status (run_batch bn (tool bn (Some (fst c)))) \<noteq> Failed)
            in case dropWhile rejected cands of
                 [] \<Rightarrow>
                   Inr (None,
                        st\<lparr>trace := trace st @ map (\<lambda>c. Run_batch bn (Some (fst c))) cands,
                            reports_dir := reports_dir st \<or> cands \<noteq> []\<rparr>)
               | c # _ \<Rightarrow>
                   Inr (Some (fst c),
                        st\<lparr>trace := trace st @ map (\<lambda>c. Run_batch bn (Some (fst c)))
                                                 (takeWhile rejected cands @ [c]),
                            reports_dir := True,
                            results := butlast (results st)
                                       @ [run_batch bn (tool bn (Some (fst c)))]\<rparr>))
         \<and> (\<not> no_fallback a \<longrightarrow>
              on_api_failure a tool bn st =
                (let cands = filter (\<lambda>c. Some (fst c) \<noteq> current_model st) FALLBACK_MODELS;
                     rejected = (\<lambda>c. status (run_batch bn (tool bn (Some (fst c)))) \<noteq> Success
                                     \<and> status (run_batch bn (tool bn (Some (fst c)))) \<noteq> Failed)
                 in case dropWhile rejected cands of
                      [] \<Rightarrow>
                        circuit_breaker bn
                          (st\<lparr>consecutive_api_errors := consecutive_api_errors st + 1,
                              trace := trace st @ map (\<lambda>c. Run_batch bn (Some (fst c))) cands,
                              reports_dir := reports_dir st \<or> cands \<noteq> []\<rparr>)
                    | c # _ \<Rightarrow>
                        Continue
                          (st\<lparr>consecutive_api_errors := 0,
                              current_model := Some (fst c),
                              trace := trace st @ map (\<lambda>c. Run_batch bn (Some (fst c)))
                                                   (takeWhile rejected cands @ [c]),
                              reports_dir := True,
                              results := butlast (results st)
                                         @ [run_batch bn (tool bn (Some (fst c)))]\<rparr>)))
         \<and> (py_index batches i = Inr batch \<longrightarrow>
              (\<exists>evs. trace (state_of (process_batch a tool batches end_idx i st))
                       = trace st @ Run_batch (i + 1) (current_model st) # evs))"
proof (intro conjI impI)
  show "try_fallback_models tool bn st cur =
           (let cands = filter (\<lambda>c. Some (fst c) \<noteq> cur) FALLBACK_MODELS;
                rejected = (\<lambda>c. status (run_batch bn (tool bn (Some (fst c)))) \<noteq> Success
                                \<and> status (run_batch bn (tool bn (Some (fst c)))) \<noteq> Failed)
            in case dropWhile rejected cands of
                 [] \<Rightarrow>
                   Inr (None,
                        st\<lparr>trace := trace st @ map (\<lambda>c. Run_batch bn (Some (fst c))) cands,
                            reports_dir := reports_dir st \<or> cands \<noteq> []\<rparr>)
               | c # _ \<Rightarrow>
                   Inr (Some (fst c),
                        st\<lparr>trace := trace st @ map (\<lambda>c. Run_batch bn (Some (fst c)))
                                                 (takeWhile rejected cands @ [c]),
                            reports_dir := True,
                            results := butlast (results st)
                                       @ [run_batch bn (tool bn (Some (fst c)))]\<rparr>))"
    using assms by (rule fallback_roster_selection)
next
  assume "\<not> no_fallback a"
  with assms
  show "on_api_failure a tool bn st =
                (let cands = filter (\<lambda>c. Some (fst c) \<noteq> current_model st) FALLBACK_MODELS;
                     rejected = (\<lambda>c. status (run_batch bn (tool bn (Some (fst c)))) \<noteq> Success
                                     \<and> status (run_batch bn (tool bn (Some (fst c)))) \<noteq> Failed)
                 in case dropWhile rejected cands of
                      [] \<Rightarrow>
                        circuit_breaker bn
                          (st\<lparr>consecutive_api_errors := consecutive_api_errors st + 1,
                              trace := trace st @ map (\<lambda>c. Run_batch bn (Some (fst c))) cands,
                              reports_dir := reports_dir st \<or> cands \<noteq> []\<rparr>)
                    | c # _ \<Rightarrow>
                        Continue
                          (st\<lparr>consecutive_api_errors := 0,
                              current_model := Some (fst c),
                              trace := trace st @ map (\<lambda>c. Run_batch bn (Some (fst c)))
                                                   (takeWhile rejected cands @ [c]),
                              reports_dir := True,
                              results := butlast (results st)
                                         @ [run_batch bn (tool bn (Some (fst c)))]\<rparr>))"
    by (rule fallback_roster_controller)
next
  assume "py_index batches i = Inr batch"
  then show "\<exists>evs. trace (state_of (process_batch a tool batches end_idx i st))
                       = trace st @ Run_batch (i + 1) (current_model st) # evs"
    by (rule process_batch_first_run)
qed

text \<open>
  The override model \<^verbatim>\<open>google:gemini-2.5-flash-lite\<close> has timed out on batch 1. The selector
  skips it, runs \<^verbatim>\<open>google:gemini-3-pro-preview\<close> (rate limited, not adopted) and then
  \<^verbatim>\<open>google:gemini-2.5-pro\<close> (\<^verbatim>\<open>failed\<close>, adopted): the timeout in the results is replaced, the
  counter is 0, and batch 2 runs under the adopted model, also in the whole run. Under a
  tool that is rate limited for every model, both candidates are run and none is adopted.
\<close>

theorem fallback_selection_in_roster_order_witness:
  "results state_flash_lite_timed_out \<noteq> []
   \<and> \<not> no_fallback flash_lite_args
   \<and> status (run_batch 1 (tool_pro_answers 1 (Some ''google:gemini-3-pro-preview''))) = Rate_limited
   \<and> status (run_batch 1 (tool_pro_answers 1 (Some ''google:gemini-2.5-pro''))) = Failed
   \<and> try_fallback_models tool_pro_answers 1 state_flash_lite_timed_out
        (current_model state_flash_lite_timed_out) =
       Inr (Some ''google:gemini-2.5-pro'',
            state_flash_lite_timed_out
              \<lparr>trace := [Run_batch 1 (Some ''google:gemini-2.5-flash-lite''),
                         Run_batch 1 (Some ''google:gemini-3-pro-preview''),
                         Run_batch 1 (Some ''google:gemini-2.5-pro'')],
               reports_dir := True,
               results := [run_batch 1 (Exited 1 5 Missing)]\<rparr>)
   \<and> on_api_failure flash_lite_args tool_pro_answers 1 state_flash_lite_timed_out =
       Continue
         (state_flash_lite_timed_out
            \<lparr>consecutive_api_errors := 0,
             current_model := Some ''google:gemini-2.5-pro'',
             trace := [Run_batch 1 (Some ''google:gemini-2.5-flash-lite''),
                       Run_batch 1 (Some ''google:gemini-3-pro-preview''),
                       Run_batch 1 (Some ''google:gemini-2.5-pro'')],
             reports_dir := True,
             results := [run_batch 1 (Exited 1 5 Missing)]\<rparr>)
   \<and> try_fallback_models tool_rate_limited 1 state_flash_lite_timed_out
        (current_model state_flash_lite_timed_out) =
       Inr (None,
            state_flash_lite_timed_out
              \<lparr>trace := [Run_batch 1 (Some ''google:gemini-2.5-flash-lite''),
                         Run_batch 1 (Some ''google:gemini-3-pro-preview''),
                         Run_batch 1 (Some ''google:gemini-2.5-pro'')],
               reports_dir := True\<rparr>)
   \<and> py_index [[1, 2], [3, 4 :: nat]] 1 = Inr [3, 4]
   \<and> (\<exists>evs. trace (state_of (process_batch flash_lite_args tool_pro_answers
                                  [[1, 2], [3, 4 :: nat]] 2 1
                                  (state_flash_lite_timed_out
                                     \<lparr>consecutive_api_errors := 0,
                                      current_model := Some ''google:gemini-2.5-pro'',
                                      trace := [Run_batch 1 (Some ''google:gemini-2.5-flash-lite''),
                                                Run_batch 1 (Some ''google:gemini-3-pro-preview''),
                                                Run_batch 1 (Some ''google:gemini-2.5-pro'')],
                                      reports_dir := True,
                                      results := [run_batch 1 (Exited 1 5 Missing)]\<rparr>)))
              = [Run_batch 1 (Some ''google:gemini-2.5-flash-lite''),
                 Run_batch 1 (Some ''google:gemini-3-pro-preview''),
                 Run_batch 1 (Some ''google:gemini-2.5-pro'')]
                @ Run_batch 2 (Some ''google:gemini-2.5-pro'') # evs)
   \<and> main flash_lite_args (Inline_config (Some [1, 2, 3, 4 :: nat])) tool_pro_answers True
       = (Exit 0,
          \<lparr>results = [run_batch 1 (Exited 1 5 Missing), run_batch 2 (Exited 1 5 Missing)],
           consecutive_api_errors = 0,
           current_model = Some ''google:gemini-2.5-pro'',
           trace = [Run_batch 1 (Some ''google:gemini-2.5-flash-lite''),
                    Run_batch 1 (Some ''google:gemini-3-pro-preview''),
                    Run_batch 1 (Some ''google:gemini-2.5-pro''),
                    Run_batch 2 (Some ''google:gemini-2.5-pro''),
                    Save_summary [run_batch 1 (Exited 1 5 Missing),
                                  run_batch 2 (Exited 1 5 Missing)]],
           reports_dir = True\<rparr>)"
proof -
  have ne: "results state_flash_lite_timed_out \<noteq> []"
    by (simp add: state_flash_lite_timed_out_def)
  have nf: "\<not> no_fallback flash_lite_args"
    by (simp add: flash_lite_args_def default_args_def)
  have cur: "current_model state_flash_lite_timed_out = Some ''google:gemini-2.5-flash-lite''"
    "trace state_flash_lite_timed_out = [Run_batch 1 (Some ''google:gemini-2.5-flash-lite'')]"
    "results state_flash_lite_timed_out = [run_batch 1 (Timed_out 120)]"
    "reports_dir state_flash_lite_timed_out"
    by (simp_all add: state_flash_lite_timed_out_def)
  have s1: "status (run_batch 1 (tool_pro_answers 1 (Some ''google:gemini-3-pro-preview''))) = Rate_limited"
    by code_simp
  have s2: "status (run_batch 1 (tool_pro_answers 1 (Some ''google:gemini-2.5-pro''))) = Failed"
    by code_simp
  have r2: "tool_pro_answers 1 (Some ''google:gemini-2.5-pro'') = Exited 1 5 Missing"
    by (simp add: tool_pro_answers_def)
  have t1: "status (run_batch 1 (tool_rate_limited 1 (Some ''google:gemini-3-pro-preview''))) = Rate_limited"
    by code_simp
  have t2: "status (run_batch 1 (tool_rate_limited 1 (Some ''google:gemini-2.5-pro''))) = Rate_limited"
    by code_simp
  note inst = fallback_selection_in_roster_order
         [where st = state_flash_lite_timed_out and bn = 1 and a = flash_lite_args
            and cur = "current_model state_flash_lite_timed_out", OF ne]
  from inst [where tool = tool_pro_answers, THEN conjunct1]
  have a: "try_fallback_models tool_pro_answers 1 state_flash_lite_timed_out
        (current_model state_flash_lite_timed_out) =
       Inr (Some ''google:gemini-2.5-pro'',
            state_flash_lite_timed_out
              \<lparr>trace := [Run_batch 1 (Some ''google:gemini-2.5-flash-lite''),
                         Run_batch 1 (Some ''google:gemini-3-pro-preview''),
                         Run_batch 1 (Some ''google:gemini-2.5-pro'')],
               reports_dir := True,
               results := [run_batch 1 (Exited 1 5 Missing)]\<rparr>)"
    by (simp add: Let_def FALLBACK_MODELS_def cur s1 s2 r2 check_api_errors_def)
  from inst [where tool = tool_pro_answers, THEN conjunct2, THEN conjunct1, THEN mp, OF nf]
  have b: "on_api_failure flash_lite_args tool_pro_answers 1 state_flash_lite_timed_out =
       Continue
         (state_flash_lite_timed_out
            \<lparr>consecutive_api_errors := 0,
             current_model := Some ''google:gemini-2.5-pro'',
             trace := [Run_batch 1 (Some ''google:gemini-2.5-flash-lite''),
                       Run_batch 1 (Some ''google:gemini-3-pro-preview''),
                       Run_batch 1 (Some ''google:gemini-2.5-pro'')],
             reports_dir := True,
             results := [run_batch 1 (Exited 1 5 Missing)]\<rparr>)"
    by (simp add: Let_def FALLBACK_MODELS_def cur s1 s2 r2 check_api_errors_def)
  from inst [where tool = tool_rate_limited, THEN conjunct1]
  have c: "try_fallback_models tool_rate_limited 1 state_flash_lite_timed_out
        (current_model state_flash_lite_timed_out) =
       Inr (None,
            state_flash_lite_timed_out
              \<lparr>trace := [Run_batch 1 (Some ''google:gemini-2.5-flash-lite''),
                         Run_batch 1 (Some ''google:gemini-3-pro-preview''),
                         Run_batch 1 (Some ''google:gemini-2.5-pro'')],
               reports_dir := True\<rparr>)"
    by (simp add: Let_def FALLBACK_MODELS_def cur t1 t2)
  define adopted where "adopted = state_flash_lite_timed_out
                                     \<lparr>consecutive_api_errors := 0,
                                      current_model := Some ''google:gemini-2.5-pro'',
                                      trace := [Run_batch 1 (Some ''google:gemini-2.5-flash-lite''),
                                                Run_batch 1 (Some ''google:gemini-3-pro-preview''),
                                                Run_batch 1 (Some ''google:gemini-2.5-pro'')],
                                      reports_dir := True,
                                      results := [run_batch 1 (Exited 1 5 Missing)]\<rparr>"
  have ne': "results adopted \<noteq> []" by (simp add: adopted_def)
  have ix: "py_index [[1, 2], [3, 4 :: nat]] 1 = Inr [3, 4]"
    by (simp add: py_index_def)
  from fallback_selection_in_roster_order
         [where st = adopted and a = flash_lite_args and tool = tool_pro_answers
            and batches = "[[1, 2], [3, 4 :: nat]]" and i = 1 and batch = "[3, 4]"
            and end_idx = 2,
          OF ne', THEN conjunct2, THEN conjunct2, THEN mp, OF ix]
  have d: "\<exists>evs. trace (state_of (process_batch flash_lite_args tool_pro_answers
                                  [[1, 2], [3, 4 :: nat]] 2 1 adopted))
              = [Run_batch 1 (Some ''google:gemini-2.5-flash-lite''),
                 Run_batch 1 (Some ''google:gemini-3-pro-preview''),
                 Run_batch 1 (Some ''google:gemini-2.5-pro'')]
                @ Run_batch 2 (Some ''google:gemini-2.5-pro'') # evs"
    by (simp add: adopted_def)
  have m: "main flash_lite_args (Inline_config (Some [1, 2, 3, 4 :: nat])) tool_pro_answers True
       = (Exit 0,
          \<lparr>results = [run_batch 1 (Exited 1 5 Missing), run_batch 2 (Exited 1 5 Missing)],
           consecutive_api_errors = 0,
           current_model = Some ''google:gemini-2.5-pro'',
           trace = [Run_batch 1 (Some ''google:gemini-2.5-flash-lite''),
                    Run_batch 1 (Some ''google:gemini-3-pro-preview''),
                    Run_batch 1 (Some ''google:gemini-2.5-pro''),
                    Run_batch 2 (Some ''google:gemini-2.5-pro''),
                    Save_summary [run_batch 1 (Exited 1 5 Missing),
                                  run_batch 2 (Exited 1 5 Missing)]],
           reports_dir = True\<rparr>)"
    by code_simp
  from ne nf s1 s2 a b c ix d [unfolded adopted_def] m show ?thesis by blast
qed

section \<open>Input validation in \<^verbatim>\<open>main\<close>\<close>






section \<open>Properties of the result merger\<close>

lemma merge_token_other:
  "k \<noteq> key \<Longrightarrow> usage_get (merge_token batch_usage key merged_usage) k = usage_get merged_usage k"
  by (simp add: merge_token_def usage_get_def split: option.splits)

lemma merge_token_same:
  "usage_get (merge_token batch_usage key merged_usage) key
     = usage_get merged_usage key + usage_get batch_usage key"
  by (simp add: merge_token_def usage_get_def split: option.splits)

lemma merge_usage_get:
  assumes "key \<in> set token_keys"
  shows "usage_get (merge_usage merged_usage batch_usage) key
           = usage_get merged_usage key + usage_get batch_usage key"
proof -
  from assms have "key = ''prompt'' \<or> key = ''completion'' \<or> key = ''cached'' \<or> key = ''total''"
    by (simp add: token_keys_def)
  then show ?thesis
    by (elim disjE) (simp_all add: merge_usage_def token_keys_def merge_token_other merge_token_same)
qed

lemma merge_loop_invariant:
  "merge_loop rest (merged, ts, tf, te) = (merged', ts', tf', te') \<Longrightarrow>
     art_results merged' = art_results merged @ concat (map art_results rest)
     \<and> ts' = ts + sum_list (map (\<lambda>a. successes (art_stats a)) rest)
     \<and> tf' = tf + sum_list (map (\<lambda>a. failures (art_stats a)) rest)
     \<and> te' = te + sum_list (map (\<lambda>a. errors (art_stats a)) rest)
     \<and> (\<forall>key \<in> set token_keys.
           usage_get (tokenUsage (art_stats merged')) key
             = usage_get (tokenUsage (art_stats merged)) key
               + sum_list (map (\<lambda>a. usage_get (tokenUsage (art_stats a)) key) rest))"
proof (induction rest arbitrary: merged ts tf te)
  case Nil
  then show ?case by simp
next
  case (Cons b rest)
  define merged1 where "merged1 =
     merged\<lparr>art_results := art_results merged @ art_results b,
            art_stats := (art_stats merged)
              \<lparr>tokenUsage := merge_usage (tokenUsage (art_stats merged))
                                           (tokenUsage (art_stats b))\<rparr>\<rparr>"
  from Cons.prems
  have "merge_loop rest (merged1, ts + successes (art_stats b), tf + failures (art_stats b),
                         te + errors (art_stats b)) = (merged', ts', tf', te')"
    by (simp add: merged1_def)
  from Cons.IH [OF this] show ?case
    by (simp add: merged1_def merge_usage_get add.assoc)
qed

lemma merge_token_keeps:
  "k \<noteq> key \<Longrightarrow> merge_token batch_usage key merged_usage k = merged_usage k"
  by (simp add: merge_token_def split: option.splits)

lemma merge_usage_keeps:
  assumes "key \<notin> set token_keys"
  shows "merge_usage merged_usage batch_usage key = merged_usage key"
  using assms by (simp add: merge_usage_def token_keys_def merge_token_keeps)

lemma merge_loop_keeps:
  "merge_loop rest (merged, ts, tf, te) = (merged', ts', tf', te') \<Longrightarrow>
     key \<notin> set token_keys \<Longrightarrow>
     tokenUsage (art_stats merged') key = tokenUsage (art_stats merged) key"
proof (induction rest arbitrary: merged ts tf te)
  case Nil
  then show ?case by simp
next
  case (Cons b rest)
  define merged1 where "merged1 =
     merged\<lparr>art_results := art_results merged @ art_results b,
            art_stats := (art_stats merged)
              \<lparr>tokenUsage := merge_usage (tokenUsage (art_stats merged))
                                           (tokenUsage (art_stats b))\<rparr>\<rparr>"
  from Cons.prems(1)
  have "merge_loop rest (merged1, ts + successes (art_stats b), tf + failures (art_stats b),
                         te + errors (art_stats b)) = (merged', ts', tf', te')"
    by (simp add: merged1_def)
  from Cons.IH [OF this Cons.prems(2)]
  have "tokenUsage (art_stats merged') key = tokenUsage (art_stats merged1) key" .
  also have "\<dots> = tokenUsage (art_stats merged) key"
    using Cons.prems(2) by (simp add: merged1_def merge_usage_keeps)
  finally show ?case .
qed

text \<open>
  Claim C8. For every non-empty list of artifacts, in the order given, the merger returns
  an artifact whose record sequence is the concatenation of the inputs' record sequences
  in that order, whose counters \<^verbatim>\<open>successes\<close>, \<^verbatim>\<open>failures\<close> and \<^verbatim>\<open>errors\<close> are the sums over
  all inputs, and in whose \<^verbatim>\<open>tokenUsage\<close> each of the keys \<^verbatim>\<open>prompt\<close>, \<^verbatim>\<open>completion\<close>,
  \<^verbatim>\<open>cached\<close> and \<^verbatim>\<open>total\<close>, an absent key read as 0, is the sum over all inputs. Every
  other key of \<^verbatim>\<open>tokenUsage\<close> is left as the first artifact has it.
\<close>

theorem merge_results_concat_and_sums:
  assumes "arts \<noteq> []"
  shows "\<exists>m. merge_results arts = Some m
            \<and> art_results m = concat (map art_results arts)
            \<and> successes (art_stats m) = sum_list (map (\<lambda>a. successes (art_stats a)) arts)
            \<and> failures (art_stats m) = sum_list (map (\<lambda>a. failures (art_stats a)) arts)
            \<and> errors (art_stats m) = sum_list (map (\<lambda>a. errors (art_stats a)) arts)
            \<and> (\<forall>key \<in> set token_keys.
                  usage_get (tokenUsage (art_stats m)) key
                    = sum_list (map (\<lambda>a. usage_get (tokenUsage (art_stats a)) key) arts))
            \<and> (\<forall>key. key \<notin> set token_keys \<longrightarrow>
                  tokenUsage (art_stats m) key = tokenUsage (art_stats (hd arts)) key)"
proof -
  from assms obtain base rest where arts: "arts = base # rest" by (cases arts) auto
  obtain merged ts tf te
    where loop: "merge_loop rest (base, successes (art_stats base), failures (art_stats base),
                                  errors (art_stats base)) = (merged, ts, tf, te)"
    by (metis prod_cases4)
  define m where "m = merged\<lparr>art_stats := (art_stats merged)
                  \<lparr>successes := ts, failures := tf, errors := te\<rparr>\<rparr>"
  from loop have res: "merge_results arts = Some m"
    by (simp add: arts m_def)
  from merge_loop_invariant [OF loop]
  have inv: "art_results merged = art_results base @ concat (map art_results rest)"
    "ts = successes (art_stats base) + sum_list (map (\<lambda>a. successes (art_stats a)) rest)"
    "tf = failures (art_stats base) + sum_list (map (\<lambda>a. failures (art_stats a)) rest)"
    "te = errors (art_stats base) + sum_list (map (\<lambda>a. errors (art_stats a)) rest)"
    "\<forall>key \<in> set token_keys.
           usage_get (tokenUsage (art_stats merged)) key
             = usage_get (tokenUsage (art_stats base)) key
               + sum_list (map (\<lambda>a. usage_get (tokenUsage (art_stats a)) key) rest)"
    by blast+
  have "art_results m = concat (map art_results arts)"
    using inv(1) by (simp add: m_def arts)
  moreover have "successes (art_stats m) = sum_list (map (\<lambda>a. successes (art_stats a)) arts)"
    using inv(2) by (simp add: m_def arts)
  moreover have "failures (art_stats m) = sum_list (map (\<lambda>a. failures (art_stats a)) arts)"
    using inv(3) by (simp add: m_def arts)
  moreover have "errors (art_stats m) = sum_list (map (\<lambda>a. errors (art_stats a)) arts)"
    using inv(4) by (simp add: m_def arts)
  moreover have "\<forall>key \<in> set token_keys.
                  usage_get (tokenUsage (art_stats m)) key
                    = sum_list (map (\<lambda>a. usage_get (tokenUsage (art_stats a)) key) arts)"
    using inv(5) by (simp add: m_def arts)
  moreover have "\<forall>key. key \<notin> set token_keys \<longrightarrow>
                  tokenUsage (art_stats m) key = tokenUsage (art_stats (hd arts)) key"
    using merge_loop_keeps [OF loop] by (simp add: m_def arts)
  ultimately show ?thesis using res by blast
qed

text \<open>
  The scenario of two batches with stats 2/0/0 and 1/1/0: four records in order, stats
  3/1/0, the four token counters summed, \<^verbatim>\<open>numRequests\<close> as in the first artifact.
\<close>

theorem merge_results_concat_and_sums_witness:
  "[artifact_a, artifact_b] \<noteq> []
   \<and> (\<exists>m. merge_results [artifact_a, artifact_b] = Some m
          \<and> art_results m = [1, 2, 3, 4]
          \<and> length (art_results m) = 4
          \<and> successes (art_stats m) = 3
          \<and> failures (art_stats m) = 1
          \<and> errors (art_stats m) = 0
          \<and> usage_get (tokenUsage (art_stats m)) ''prompt'' = 6
          \<and> usage_get (tokenUsage (art_stats m)) ''completion'' = 2
          \<and> usage_get (tokenUsage (art_stats m)) ''cached'' = 0
          \<and> usage_get (tokenUsage (art_stats m)) ''total'' = 15
          \<and> tokenUsage (art_stats m) ''numRequests'' = Some 2)"
proof -
  have ne: "[artifact_a, artifact_b] \<noteq> []" by simp
  from merge_results_concat_and_sums [OF ne]
  obtain m where m: "merge_results [artifact_a, artifact_b] = Some m"
    "art_results m = concat (map art_results [artifact_a, artifact_b])"
    "successes (art_stats m) = sum_list (map (\<lambda>a. successes (art_stats a)) [artifact_a, artifact_b])"
    "failures (art_stats m) = sum_list (map (\<lambda>a. failures (art_stats a)) [artifact_a, artifact_b])"
    "errors (art_stats m) = sum_list (map (\<lambda>a. errors (art_stats a)) [artifact_a, artifact_b])"
    "\<forall>key \<in> set token_keys.
        usage_get (tokenUsage (art_stats m)) key
          = sum_list (map (\<lambda>a. usage_get (tokenUsage (art_stats a)) key) [artifact_a, artifact_b])"
    "\<forall>key. key \<notin> set token_keys \<longrightarrow>
        tokenUsage (art_stats m) key = tokenUsage (art_stats (hd [artifact_a, artifact_b])) key"
    by blast
  from m(2) have r: "art_results m = [1, 2, 3, 4]"
    by (simp add: artifact_a_def artifact_b_def)
  from m(3) have s: "successes (art_stats m) = 3" by (simp add: artifact_a_def artifact_b_def)
  from m(4) have f: "failures (art_stats m) = 1" by (simp add: artifact_a_def artifact_b_def)
  from m(5) have e: "errors (art_stats m) = 0" by (simp add: artifact_a_def artifact_b_def)
  from m(6) have u: "usage_get (tokenUsage (art_stats m)) ''prompt'' = 6"
    "usage_get (tokenUsage (art_stats m)) ''completion'' = 2"
    "usage_get (tokenUsage (art_stats m)) ''cached'' = 0"
    "usage_get (tokenUsage (art_stats m)) ''total'' = 15"
    by (simp_all add: token_keys_def usage_get_def artifact_a_def artifact_b_def)
  have "''numRequests'' \<notin> set token_keys" by (simp add: token_keys_def)
  with m(7) have "tokenUsage (art_stats m) ''numRequests''
                    = tokenUsage (art_stats (hd [artifact_a, artifact_b])) ''numRequests''"
    by blast
  then have k: "tokenUsage (art_stats m) ''numRequests'' = Some 2"
    by (simp add: artifact_a_def)
  from r have l: "length (art_results m) = 4" by simp
  from ne m(1) r l s f e u k show ?thesis by blast
qed

text \<open>
  A counter of \<^verbatim>\<open>tokenUsage\<close> outside the four keys is not summed: with \<^verbatim>\<open>numRequests\<close> 2
  and 3 in the two artifacts the merged value is 2, not 5.
\<close>

theorem token_usage_other_key_counterexample:
  "merge_results [artifact_a, artifact_b] \<noteq> None
   \<and> usage_get (tokenUsage (art_stats (the (merge_results [artifact_a, artifact_b]))))
        ''numRequests'' = 2
   \<and> usage_get (tokenUsage (art_stats artifact_a)) ''numRequests''
       + usage_get (tokenUsage (art_stats artifact_b)) ''numRequests'' = 5"
  by (simp add: artifact_a_def artifact_b_def merge_usage_def token_keys_def merge_token_def
        usage_get_def)

end
